theory Spec2Isabelle
  imports Complex_Main
begin

section \<open>Data model\<close>

text \<open>
  The calculator of \<^verbatim>\<open>calc.js\<close> works on JavaScript strings and numbers. A token
  of the program is either a number (\<^verbatim>\<open>typeof token === 'number'\<close>) or a string: one
  of the characters \<^verbatim>\<open>+ - * / ( )\<close> or the marker \<^verbatim>\<open>'NEG'\<close>. The model keeps the
  strings as they are.

  Input strings are lists of \<^typ>\<open>char\<close>, that is, of code units below 256. A thrown
  \<^verbatim>\<open>Error(message)\<close> is the value \<open>Inl message\<close>.
\<close>

datatype 'n token = Number 'n | Sym string

text \<open>
  JavaScript numbers are IEEE-754 doubles. The program uses them only through the
  primitives below, which the model takes as a parameter, so that every statement
  proved for all \<open>N\<close> holds for the double arithmetic of the program as well:
  \<^verbatim>\<open>parseFloat\<close>, the operators \<^verbatim>\<open>+ - * /\<close> and unary \<^verbatim>\<open>-\<close>, the literal \<^verbatim>\<open>0\<close>,
  strict equality \<^verbatim>\<open>===\<close> on numbers, \<^verbatim>\<open>Math.floor\<close> and \<^verbatim>\<open>String\<close>.
\<close>

record 'n number =
  parseFloat :: "string \<Rightarrow> 'n"
  js_add :: "'n \<Rightarrow> 'n \<Rightarrow> 'n"
  js_sub :: "'n \<Rightarrow> 'n \<Rightarrow> 'n"
  js_mul :: "'n \<Rightarrow> 'n \<Rightarrow> 'n"
  js_div :: "'n \<Rightarrow> 'n \<Rightarrow> 'n"
  js_neg :: "'n \<Rightarrow> 'n"
  js_zero :: "'n"
  js_eq :: "'n \<Rightarrow> 'n \<Rightarrow> bool"
  Math_floor :: "'n \<Rightarrow> 'n"
  String_of :: "'n \<Rightarrow> string"

section \<open>Tokenizer\<close>

text \<open>The regular expression \<^verbatim>\<open>\d\<close> matches the ten ASCII digits.\<close>

definition isDigit :: "char \<Rightarrow> bool" where
  "isDigit c = (c \<in> set ''0123456789'')"

text \<open>
  The regular expression \<^verbatim>\<open>\s\<close>, on code units below 256: tab, line feed, vertical
  tab, form feed, carriage return, space and the no-break space.
\<close>

definition isSpace :: "char \<Rightarrow> bool" where
  "isSpace c = ((of_char c :: nat) \<in> set [9, 10, 11, 12, 13, 32, 160])"

text \<open>
  The inner loop of \<^verbatim>\<open>tokenize\<close>: from position \<open>j\<close> it runs over digits and over at
  most one \<^verbatim>\<open>'.'\<close>. The result is the run consumed (\<^verbatim>\<open>substring(i, j)\<close>) and the rest
  of the input from the final \<open>j\<close> on.
\<close>

fun scanNumber :: "string \<Rightarrow> bool \<Rightarrow> string \<times> string" where
  "scanNumber [] hasDot = ([], [])"
| "scanNumber (c # cs) hasDot =
     (if isDigit c \<or> (c = CHR ''.'' \<and> \<not> hasDot)
      then (case scanNumber cs (if c = CHR ''.'' then True else hasDot) of
              (run, rest) \<Rightarrow> (c # run, rest))
      else ([], c # cs))"

lemma scanNumber_rest_le: "length (snd (scanNumber s hasDot)) \<le> length s"
  by (induction s hasDot rule: scanNumber.induct) (auto split: prod.splits)

lemma scanNumber_rest_less:
  assumes "isDigit c \<or> c = CHR ''.''"
  shows "length (snd (scanNumber (c # cs) False)) < Suc (length cs)"
proof -
  have "length (snd (scanNumber cs (if c = CHR ''.'' then True else False))) \<le> length cs"
    by (rule scanNumber_rest_le)
  with assms show ?thesis
    by (auto split: prod.splits)
qed

text \<open>
  The outer loop of \<^verbatim>\<open>tokenize\<close>, on the input from position \<open>i\<close> on, with the tokens
  pushed so far.
\<close>

function tokenize_loop :: "'n number \<Rightarrow> string \<Rightarrow> 'n token list \<Rightarrow> string + 'n token list" where
  "tokenize_loop N [] tokens = Inr tokens"
| "tokenize_loop N (c # cs) tokens =
     (if isDigit c \<or> (c = CHR ''.'' \<and> cs \<noteq> [] \<and> isDigit (hd cs))
      then tokenize_loop N (snd (scanNumber (c # cs) False))
             (tokens @ [Number (parseFloat N (fst (scanNumber (c # cs) False)))])
      else if c \<in> set ''+-*/()''
      then tokenize_loop N cs (tokens @ [Sym [c]])
      else Inl ''Invalid character'')"
  by pat_completeness auto
termination
proof (relation "measure (\<lambda>(N, s, tokens). length s)")
  show "wf (measure (\<lambda>(N :: 'n number, s, tokens :: 'n token list). length s))"
    by simp
next
  fix N :: "'n number" and c cs and tokens :: "'n token list"
  assume "isDigit c \<or> c = CHR ''.'' \<and> cs \<noteq> [] \<and> isDigit (hd cs)"
  then have "isDigit c \<or> c = CHR ''.''"
    by blast
  then have "length (snd (scanNumber (c # cs) False)) < Suc (length cs)"
    by (rule scanNumber_rest_less)
  then show "((N, snd (scanNumber (c # cs) False),
               tokens @ [Number (parseFloat N (fst (scanNumber (c # cs) False)))]),
              (N, c # cs, tokens)) \<in> measure (\<lambda>(N, s, tokens). length s)"
    by simp
next
  fix N :: "'n number" and c cs and tokens :: "'n token list"
  show "((N, cs, tokens @ [Sym [c]]), (N, c # cs, tokens)) \<in> measure (\<lambda>(N, s, tokens). length s)"
    by simp
qed

definition tokenize :: "'n number \<Rightarrow> string \<Rightarrow> string + 'n token list" where
  "tokenize N expr =
     (let exprClean = filter (\<lambda>c. \<not> isSpace c) expr
      in if exprClean = [] then Inl ''Malformed expression''
         else tokenize_loop N exprClean [])"

section \<open>Unary minus\<close>

text \<open>
  The loop of \<^verbatim>\<open>handleUnaryMinus\<close>; \<open>prevToken\<close> is \<^verbatim>\<open>tokens[i - 1]\<close> of the input
  array, \<open>None\<close> for \<^verbatim>\<open>null\<close> at \<open>i = 0\<close>.
\<close>

fun handleUnaryMinus_loop :: "'n token option \<Rightarrow> 'n token list \<Rightarrow> 'n token list" where
  "handleUnaryMinus_loop prevToken [] = []"
| "handleUnaryMinus_loop prevToken (token # tokens) =
     (if token = Sym ''-''
      then (if prevToken = None \<or> prevToken = Some (Sym ''('') \<or> prevToken = Some (Sym ''+'')
               \<or> prevToken = Some (Sym ''-'') \<or> prevToken = Some (Sym ''*'')
               \<or> prevToken = Some (Sym ''/'')
            then Sym ''NEG'' else token)
      else token) # handleUnaryMinus_loop (Some token) tokens"

definition handleUnaryMinus :: "'n token list \<Rightarrow> 'n token list" where
  "handleUnaryMinus tokens = handleUnaryMinus_loop None tokens"

section \<open>Shunting-yard\<close>

definition precedence :: "'n token \<Rightarrow> nat" where
  "precedence op =
     (if op \<in> set [Sym ''+'', Sym ''-''] then 1
      else if op \<in> set [Sym ''*'', Sym ''/''] then 2
      else if op = Sym ''NEG'' then 3
      else 0)"

definition isOperator :: "'n token \<Rightarrow> bool" where
  "isOperator token = (token \<in> set [Sym ''+'', Sym ''-'', Sym ''*'', Sym ''/'', Sym ''NEG''])"

text \<open>
  The operator stack is a list whose head is the top of the stack (the last element of
  the JavaScript array); the output queue is a list in the order of the array.

  \<open>popOperators\<close> is the \<^verbatim>\<open>while\<close> loop run for an incoming operator.
\<close>

fun popOperators :: "'n token \<Rightarrow> 'n token list \<Rightarrow> 'n token list \<Rightarrow> 'n token list \<times> 'n token list" where
  "popOperators token outputQueue [] = (outputQueue, [])"
| "popOperators token outputQueue (topOp # operatorStack) =
     (if topOp \<noteq> Sym ''('' \<and> isOperator topOp \<and> precedence topOp \<ge> precedence token
      then popOperators token (outputQueue @ [topOp]) operatorStack
      else (outputQueue, topOp # operatorStack))"

text \<open>The \<^verbatim>\<open>while\<close> loop run for a right parenthesis; the last component is \<^verbatim>\<open>foundLeft\<close>.\<close>

fun popToLeftParen :: "'n token list \<Rightarrow> 'n token list \<Rightarrow> 'n token list \<times> 'n token list \<times> bool" where
  "popToLeftParen outputQueue [] = (outputQueue, [], False)"
| "popToLeftParen outputQueue (op # operatorStack) =
     (if op = Sym ''('' then (outputQueue, operatorStack, True)
      else popToLeftParen (outputQueue @ [op]) operatorStack)"

text \<open>
  One iteration of the \<^verbatim>\<open>for\<close> loop of \<^verbatim>\<open>shuntingYard\<close>, on the pair of the output
  queue and the operator stack. A token that is none of number, operator, \<^verbatim>\<open>'('\<close> and
  \<^verbatim>\<open>')'\<close> falls through every branch.
\<close>

fun shuntingYard_step :: "'n token \<Rightarrow> 'n token list \<times> 'n token list \<Rightarrow> string + 'n token list \<times> 'n token list" where
  "shuntingYard_step token (outputQueue, operatorStack) =
     (case token of
        Number x \<Rightarrow> Inr (outputQueue @ [token], operatorStack)
      | Sym s \<Rightarrow>
          if isOperator token
          then (case popOperators token outputQueue operatorStack of
                  (outputQueue', operatorStack') \<Rightarrow> Inr (outputQueue', token # operatorStack'))
          else if token = Sym ''(''
          then Inr (outputQueue, token # operatorStack)
          else if token = Sym '')''
          then (case popToLeftParen outputQueue operatorStack of
                  (outputQueue', operatorStack', foundLeft) \<Rightarrow>
                    if \<not> foundLeft then Inl ''Mismatched parentheses''
                    else Inr (outputQueue', operatorStack'))
          else Inr (outputQueue, operatorStack))"

fun shuntingYard_loop :: "'n token list \<Rightarrow> 'n token list \<times> 'n token list \<Rightarrow> string + 'n token list \<times> 'n token list" where
  "shuntingYard_loop [] st = Inr st"
| "shuntingYard_loop (token # tokens) st =
     (case shuntingYard_step token st of
        Inl e \<Rightarrow> Inl e
      | Inr st' \<Rightarrow> shuntingYard_loop tokens st')"

text \<open>The final loop, which pops the remaining operators.\<close>

fun popRemaining :: "'n token list \<Rightarrow> 'n token list \<Rightarrow> string + 'n token list" where
  "popRemaining outputQueue [] = Inr outputQueue"
| "popRemaining outputQueue (op # operatorStack) =
     (if op \<in> set [Sym ''('', Sym '')''] then Inl ''Mismatched parentheses''
      else popRemaining (outputQueue @ [op]) operatorStack)"

definition shuntingYard :: "'n token list \<Rightarrow> string + 'n token list" where
  "shuntingYard tokens =
     (case shuntingYard_loop tokens ([], []) of
        Inl e \<Rightarrow> Inl e
      | Inr (outputQueue, operatorStack) \<Rightarrow> popRemaining outputQueue operatorStack)"

definition toRPN :: "'n token list \<Rightarrow> string + 'n token list" where
  "toRPN tokens = shuntingYard (handleUnaryMinus tokens)"

section \<open>Postfix evaluation\<close>

text \<open>
  \<^verbatim>\<open>applyOperator(op, operands)\<close>; the evaluator calls it with \<^verbatim>\<open>[right, left]\<close> for a
  binary operator and with \<^verbatim>\<open>[operand]\<close> for \<^verbatim>\<open>'NEG'\<close>, so every index read is in
  range.
\<close>

definition applyOperator :: "'n number \<Rightarrow> string \<Rightarrow> 'n list \<Rightarrow> string + 'n" where
  "applyOperator N op operands =
     (if op = ''+'' then Inr (js_add N (operands ! 1) (operands ! 0))
      else if op = ''-'' then Inr (js_sub N (operands ! 1) (operands ! 0))
      else if op = ''*'' then Inr (js_mul N (operands ! 1) (operands ! 0))
      else if op = ''/'' then
        (if js_eq N (operands ! 0) (js_zero N) then Inl ''Division by zero''
         else Inr (js_div N (operands ! 1) (operands ! 0)))
      else if op = ''NEG'' then Inr (js_neg N (operands ! 0))
      else Inl ''Malformed expression'')"

text \<open>
  One iteration of the loop of \<^verbatim>\<open>evalRPN\<close>. The operand stack is a list whose head is
  the top of the stack, the value pushed last.
\<close>

fun evalRPN_step :: "'n number \<Rightarrow> 'n token \<Rightarrow> 'n list \<Rightarrow> string + 'n list" where
  "evalRPN_step N (Number x) stack = Inr (x # stack)"
| "evalRPN_step N (Sym op) stack =
     (if isOperator (Sym op :: 'n token)
      then (if op = ''NEG''
            then (case stack of
                    [] \<Rightarrow> Inl ''Malformed expression''
                  | operand # stack' \<Rightarrow>
                      (case applyOperator N op [operand] of
                         Inl e \<Rightarrow> Inl e
                       | Inr result \<Rightarrow> Inr (result # stack')))
            else (case stack of
                    right # left # stack' \<Rightarrow>
                      (case applyOperator N op [right, left] of
                         Inl e \<Rightarrow> Inl e
                       | Inr result \<Rightarrow> Inr (result # stack'))
                  | _ \<Rightarrow> Inl ''Malformed expression''))
      else Inr stack)"

fun evalRPN_loop :: "'n number \<Rightarrow> 'n token list \<Rightarrow> 'n list \<Rightarrow> string + 'n list" where
  "evalRPN_loop N [] stack = Inr stack"
| "evalRPN_loop N (token # rpn) stack =
     (case evalRPN_step N token stack of
        Inl e \<Rightarrow> Inl e
      | Inr stack' \<Rightarrow> evalRPN_loop N rpn stack')"

definition evalRPN :: "'n number \<Rightarrow> 'n token list \<Rightarrow> string + 'n" where
  "evalRPN N rpn =
     (case evalRPN_loop N rpn [] of
        Inl e \<Rightarrow> Inl e
      | Inr stack \<Rightarrow>
          if length stack \<noteq> 1 then Inl ''Malformed expression'' else Inr (stack ! 0))"

section \<open>Formatting and the entry point\<close>

definition formatResult :: "'n number \<Rightarrow> 'n \<Rightarrow> string" where
  "formatResult N x =
     (if js_eq N x (Math_floor N x) then String_of N (Math_floor N x) else String_of N x)"

text \<open>The body of the \<^verbatim>\<open>try\<close> block up to the result of \<^verbatim>\<open>evalRPN\<close>.\<close>

definition evaluate :: "'n number \<Rightarrow> string \<Rightarrow> string + 'n" where
  "evaluate N expr =
     (case tokenize N expr of
        Inl e \<Rightarrow> Inl e
      | Inr tokens \<Rightarrow>
          (case toRPN tokens of
             Inl e \<Rightarrow> Inl e
           | Inr rpn \<Rightarrow> evalRPN N rpn))"

definition calculate :: "'n number \<Rightarrow> string \<Rightarrow> string" where
  "calculate N expr =
     (case evaluate N expr of
        Inl message \<Rightarrow> ''ERROR: '' @ message
      | Inr result \<Rightarrow> formatResult N result)"

section \<open>Printing a number and reading it back\<close>




section \<open>Exact arithmetic\<close>

text \<open>
  An instance of the number primitives with exact rational arithmetic, used to run the
  program on concrete inputs. It agrees with the doubles of JavaScript wherever every
  literal and every intermediate value is an integer below \<open>2 ^ 53\<close> in magnitude: no
  rounding happens there, and \<^verbatim>\<open>String\<close> prints such a value as its decimal digits,
  with a leading \<^verbatim>\<open>-\<close> when negative. Elsewhere it computes the exact value where a
  double is the nearest representable one. No statement below that is made for all \<open>N\<close>
  depends on it.
\<close>

definition digitValue :: "char \<Rightarrow> nat" where
  "digitValue c = of_char c - 48"

definition digitsValue :: "string \<Rightarrow> nat" where
  "digitsValue ds = foldl (\<lambda>a c. 10 * a + digitValue c) 0 ds"

text \<open>
  \<^verbatim>\<open>parseFloat\<close> on the strings the tokenizer passes: digits, then possibly \<^verbatim>\<open>'.'\<close> and
  more digits.
\<close>

definition exact_parseFloat :: "string \<Rightarrow> rat" where
  "exact_parseFloat s =
     (let whole = takeWhile isDigit s;
          fraction = takeWhile isDigit (drop 1 (dropWhile isDigit s))
      in of_nat (digitsValue whole) + of_nat (digitsValue fraction) / 10 ^ length fraction)"

fun natDigits :: "nat \<Rightarrow> string" where
  "natDigits n =
     (if n < 10 then [char_of (48 + n)]
      else natDigits (n div 10) @ [char_of (48 + n mod 10)])"

declare natDigits.simps [simp del]

fun fractionDigits :: "nat \<Rightarrow> rat \<Rightarrow> string" where
  "fractionDigits 0 r = []"
| "fractionDigits (Suc k) r =
     (if r = 0 then []
      else char_of (48 + nat \<lfloor>10 * r\<rfloor>) # fractionDigits k (10 * r - of_int \<lfloor>10 * r\<rfloor>))"

text \<open>
  The decimal digits of a rational, the fraction cut after 16 places. On integers below
  \<open>10 ^ 21\<close> in magnitude this is what \<^verbatim>\<open>String\<close> prints.
\<close>

definition exact_String :: "rat \<Rightarrow> string" where
  "exact_String x =
     (if x < 0 then ''-'' else []) @ natDigits (nat \<lfloor>\<bar>x\<bar>\<rfloor>)
       @ (if frac \<bar>x\<bar> = 0 then [] else CHR ''.'' # fractionDigits 16 (frac \<bar>x\<bar>))"

definition exact :: "rat number" where
  "exact =
     \<lparr> parseFloat = exact_parseFloat,
       js_add = (\<lambda>a b. a + b),
       js_sub = (\<lambda>a b. a - b),
       js_mul = (\<lambda>a b. a * b),
       js_div = (\<lambda>a b. a / b),
       js_neg = (\<lambda>a. - a),
       js_zero = 0,
       js_eq = (\<lambda>a b. a = b),
       Math_floor = (\<lambda>a. of_int \<lfloor>a\<rfloor>),
       String_of = exact_String \<rparr>"

section \<open>Reference semantics of infix expressions\<close>

text \<open>
  The well-formed expressions over integer literals, the four binary operators and
  parentheses, as the derivation trees of the usual unambiguous grammar
  \<^verbatim>\<open>expr ::= product | expr + product | expr - product\<close>,
  \<^verbatim>\<open>product ::= atom | product * atom | product / atom\<close>,
  \<^verbatim>\<open>atom ::= digits | ( expr )\<close>:
  \<^verbatim>\<open>*\<close> and \<^verbatim>\<open>/\<close> bind tighter than \<^verbatim>\<open>+\<close> and \<^verbatim>\<open>-\<close>, and operators of the same
  precedence group to the left. A literal is a non-empty sequence of digits.
\<close>

datatype digit = D0 | D1 | D2 | D3 | D4 | D5 | D6 | D7 | D8 | D9

fun digitChar :: "digit \<Rightarrow> char" where
  "digitChar D0 = CHR ''0''"
| "digitChar D1 = CHR ''1''"
| "digitChar D2 = CHR ''2''"
| "digitChar D3 = CHR ''3''"
| "digitChar D4 = CHR ''4''"
| "digitChar D5 = CHR ''5''"
| "digitChar D6 = CHR ''6''"
| "digitChar D7 = CHR ''7''"
| "digitChar D8 = CHR ''8''"
| "digitChar D9 = CHR ''9''"

datatype expr = EProduct product | EAdd expr product | ESub expr product
  and product = PAtom atom | PMul product atom | PDiv product atom
  and atom = ALiteral digit "digit list" | AParen expr

text \<open>The expression as a string.\<close>

fun expr_text :: "expr \<Rightarrow> string"
  and product_text :: "product \<Rightarrow> string"
  and atom_text :: "atom \<Rightarrow> string" where
  "expr_text (EProduct p) = product_text p"
| "expr_text (EAdd e p) = expr_text e @ ''+'' @ product_text p"
| "expr_text (ESub e p) = expr_text e @ ''-'' @ product_text p"
| "product_text (PAtom a) = atom_text a"
| "product_text (PMul p a) = product_text p @ ''*'' @ atom_text a"
| "product_text (PDiv p a) = product_text p @ ''/'' @ atom_text a"
| "atom_text (ALiteral d ds) = map digitChar (d # ds)"
| "atom_text (AParen e) = ''('' @ expr_text e @ '')''"

text \<open>
  The value of an expression under standard infix arithmetic, with the arithmetic of
  \<open>N\<close>; \<open>None\<close> when a divisor is zero.
\<close>

fun expr_value :: "'n number \<Rightarrow> expr \<Rightarrow> 'n option"
  and product_value :: "'n number \<Rightarrow> product \<Rightarrow> 'n option"
  and atom_value :: "'n number \<Rightarrow> atom \<Rightarrow> 'n option" where
  "expr_value N (EProduct p) = product_value N p"
| "expr_value N (EAdd e p) =
     (case expr_value N e of None \<Rightarrow> None
      | Some l \<Rightarrow> (case product_value N p of None \<Rightarrow> None
                   | Some r \<Rightarrow> Some (js_add N l r)))"
| "expr_value N (ESub e p) =
     (case expr_value N e of None \<Rightarrow> None
      | Some l \<Rightarrow> (case product_value N p of None \<Rightarrow> None
                   | Some r \<Rightarrow> Some (js_sub N l r)))"
| "product_value N (PAtom a) = atom_value N a"
| "product_value N (PMul p a) =
     (case product_value N p of None \<Rightarrow> None
      | Some l \<Rightarrow> (case atom_value N a of None \<Rightarrow> None
                   | Some r \<Rightarrow> Some (js_mul N l r)))"
| "product_value N (PDiv p a) =
     (case product_value N p of None \<Rightarrow> None
      | Some l \<Rightarrow> (case atom_value N a of None \<Rightarrow> None
                   | Some r \<Rightarrow> if js_eq N r (js_zero N) then None else Some (js_div N l r)))"
| "atom_value N (ALiteral d ds) = Some (parseFloat N (map digitChar (d # ds)))"
| "atom_value N (AParen e) = expr_value N e"

text \<open>The tokens of an expression, and its postfix form.\<close>

fun expr_tokens :: "'n number \<Rightarrow> expr \<Rightarrow> 'n token list"
  and product_tokens :: "'n number \<Rightarrow> product \<Rightarrow> 'n token list"
  and atom_tokens :: "'n number \<Rightarrow> atom \<Rightarrow> 'n token list" where
  "expr_tokens N (EProduct p) = product_tokens N p"
| "expr_tokens N (EAdd e p) = expr_tokens N e @ Sym ''+'' # product_tokens N p"
| "expr_tokens N (ESub e p) = expr_tokens N e @ Sym ''-'' # product_tokens N p"
| "product_tokens N (PAtom a) = atom_tokens N a"
| "product_tokens N (PMul p a) = product_tokens N p @ Sym ''*'' # atom_tokens N a"
| "product_tokens N (PDiv p a) = product_tokens N p @ Sym ''/'' # atom_tokens N a"
| "atom_tokens N (ALiteral d ds) = [Number (parseFloat N (map digitChar (d # ds)))]"
| "atom_tokens N (AParen e) = Sym ''('' # expr_tokens N e @ [Sym '')'']"

fun expr_postfix :: "'n number \<Rightarrow> expr \<Rightarrow> 'n token list"
  and product_postfix :: "'n number \<Rightarrow> product \<Rightarrow> 'n token list"
  and atom_postfix :: "'n number \<Rightarrow> atom \<Rightarrow> 'n token list" where
  "expr_postfix N (EProduct p) = product_postfix N p"
| "expr_postfix N (EAdd e p) = expr_postfix N e @ product_postfix N p @ [Sym ''+'']"
| "expr_postfix N (ESub e p) = expr_postfix N e @ product_postfix N p @ [Sym ''-'']"
| "product_postfix N (PAtom a) = atom_postfix N a"
| "product_postfix N (PMul p a) = product_postfix N p @ atom_postfix N a @ [Sym ''*'']"
| "product_postfix N (PDiv p a) = product_postfix N p @ atom_postfix N a @ [Sym ''/'']"
| "atom_postfix N (ALiteral d ds) = [Number (parseFloat N (map digitChar (d # ds)))]"
| "atom_postfix N (AParen e) = expr_postfix N e"

section \<open>The tokenizer on the text of an expression\<close>

lemma isDigit_digitChar: "isDigit (digitChar d)"
  by (cases d) (simp_all add: isDigit_def)

lemma symbol_not_digit: "c \<in> set ''+-*/()'' \<Longrightarrow> \<not> isDigit c \<and> c \<noteq> CHR ''.''"
  by (auto simp: isDigit_def)

lemma scanNumber_stop:
  "rest = [] \<or> hd rest \<in> set ''+-*/()'' \<Longrightarrow> scanNumber rest hasDot = ([], rest)"
  by (cases rest) (auto simp: isDigit_def)

lemma scanNumber_digits:
  "rest = [] \<or> hd rest \<in> set ''+-*/()'' \<Longrightarrow>
   scanNumber (map digitChar ds @ rest) hasDot = (map digitChar ds, rest)"
proof (induction ds)
  case Nil
  then show ?case by (simp add: scanNumber_stop)
next
  case (Cons d ds)
  have "digitChar d \<noteq> CHR ''.''"
    by (cases d) simp_all
  with Cons show ?case
    by (simp add: isDigit_digitChar)
qed

lemma tokenize_loop_literal:
  assumes "rest = [] \<or> hd rest \<in> set ''+-*/()''"
  shows "tokenize_loop N (map digitChar (d # ds) @ rest) tokens =
         tokenize_loop N rest (tokens @ [Number (parseFloat N (map digitChar (d # ds)))])"
proof -
  have "scanNumber (digitChar d # map digitChar ds @ rest) False = (map digitChar (d # ds), rest)"
    using scanNumber_digits [OF assms, of "d # ds" False] by simp
  then show ?thesis
    by (simp add: isDigit_digitChar del: scanNumber.simps)
qed

lemma tokenize_loop_symbol:
  "c \<in> set ''+-*/()'' \<Longrightarrow> tokenize_loop N (c # rest) tokens = tokenize_loop N rest (tokens @ [Sym [c]])"
  using symbol_not_digit [of c] by simp

lemma tokenize_loop_text:
  "rest = [] \<or> hd rest \<in> set ''+-*/()'' \<Longrightarrow>
     tokenize_loop N (expr_text e @ rest) tokens = tokenize_loop N rest (tokens @ expr_tokens N e)"
  "rest = [] \<or> hd rest \<in> set ''+-*/()'' \<Longrightarrow>
     tokenize_loop N (product_text p @ rest) tokens = tokenize_loop N rest (tokens @ product_tokens N p)"
  "rest = [] \<or> hd rest \<in> set ''+-*/()'' \<Longrightarrow>
     tokenize_loop N (atom_text a @ rest) tokens = tokenize_loop N rest (tokens @ atom_tokens N a)"
proof (induction e and p and a arbitrary: rest tokens and rest tokens and rest tokens)
  case (EProduct p)
  then show ?case by simp
next
  case (EAdd e p)
  have "tokenize_loop N (expr_text e @ CHR ''+'' # product_text p @ rest) tokens =
        tokenize_loop N (CHR ''+'' # product_text p @ rest) (tokens @ expr_tokens N e)"
    by (rule EAdd.IH(1)) simp
  also have "\<dots> = tokenize_loop N (product_text p @ rest) ((tokens @ expr_tokens N e) @ [Sym ''+''])"
    by (rule tokenize_loop_symbol) simp
  also have "\<dots> = tokenize_loop N rest (((tokens @ expr_tokens N e) @ [Sym ''+'']) @ product_tokens N p)"
    by (rule EAdd.IH(2)) (rule EAdd.prems)
  finally show ?case by simp
next
  case (ESub e p)
  have "tokenize_loop N (expr_text e @ CHR ''-'' # product_text p @ rest) tokens =
        tokenize_loop N (CHR ''-'' # product_text p @ rest) (tokens @ expr_tokens N e)"
    by (rule ESub.IH(1)) simp
  also have "\<dots> = tokenize_loop N (product_text p @ rest) ((tokens @ expr_tokens N e) @ [Sym ''-''])"
    by (rule tokenize_loop_symbol) simp
  also have "\<dots> = tokenize_loop N rest (((tokens @ expr_tokens N e) @ [Sym ''-'']) @ product_tokens N p)"
    by (rule ESub.IH(2)) (rule ESub.prems)
  finally show ?case by simp
next
  case (PAtom a)
  then show ?case by simp
next
  case (PMul p a)
  have "tokenize_loop N (product_text p @ CHR ''*'' # atom_text a @ rest) tokens =
        tokenize_loop N (CHR ''*'' # atom_text a @ rest) (tokens @ product_tokens N p)"
    by (rule PMul.IH(1)) simp
  also have "\<dots> = tokenize_loop N (atom_text a @ rest) ((tokens @ product_tokens N p) @ [Sym ''*''])"
    by (rule tokenize_loop_symbol) simp
  also have "\<dots> = tokenize_loop N rest (((tokens @ product_tokens N p) @ [Sym ''*'']) @ atom_tokens N a)"
    by (rule PMul.IH(2)) (rule PMul.prems)
  finally show ?case by simp
next
  case (PDiv p a)
  have "tokenize_loop N (product_text p @ CHR ''/'' # atom_text a @ rest) tokens =
        tokenize_loop N (CHR ''/'' # atom_text a @ rest) (tokens @ product_tokens N p)"
    by (rule PDiv.IH(1)) simp
  also have "\<dots> = tokenize_loop N (atom_text a @ rest) ((tokens @ product_tokens N p) @ [Sym ''/''])"
    by (rule tokenize_loop_symbol) simp
  also have "\<dots> = tokenize_loop N rest (((tokens @ product_tokens N p) @ [Sym ''/'']) @ atom_tokens N a)"
    by (rule PDiv.IH(2)) (rule PDiv.prems)
  finally show ?case by simp
next
  case (ALiteral d ds)
  then show ?case
    using tokenize_loop_literal [of rest N d ds tokens] by simp
next
  case (AParen e)
  have "tokenize_loop N (CHR ''('' # expr_text e @ CHR '')'' # rest) tokens =
        tokenize_loop N (expr_text e @ CHR '')'' # rest) (tokens @ [Sym ''(''])"
    by (rule tokenize_loop_symbol) simp
  also have "\<dots> = tokenize_loop N (CHR '')'' # rest) ((tokens @ [Sym ''('']) @ expr_tokens N e)"
    by (rule AParen.IH) simp
  also have "\<dots> = tokenize_loop N rest (((tokens @ [Sym ''('']) @ expr_tokens N e) @ [Sym '')''])"
    by (rule tokenize_loop_symbol) simp
  finally show ?case by simp
qed

lemma expr_text_nonempty:
  "expr_text e \<noteq> []" "product_text p \<noteq> []" "atom_text a \<noteq> []"
  by (induction e and p and a) simp_all

lemma tokenize_expr_text:
  assumes "filter (\<lambda>c. \<not> isSpace c) s = expr_text e"
  shows "tokenize N s = Inr (expr_tokens N e)"
  using assms tokenize_loop_text(1) [of "[]" N e "[]"]
  by (simp add: tokenize_def expr_text_nonempty)

section \<open>Unary minus on the tokens of an expression\<close>

lemma handleUnaryMinus_loop_append:
  "handleUnaryMinus_loop prev (xs @ ys) =
     handleUnaryMinus_loop prev xs
       @ handleUnaryMinus_loop (if xs = [] then prev else Some (last xs)) ys"
  by (induction xs arbitrary: prev) simp_all

lemma expr_tokens_last:
  "expr_tokens N e \<noteq> [] \<and> (last (expr_tokens N e) = Sym '')'' \<or> (\<exists>x. last (expr_tokens N e) = Number x))"
  "product_tokens N p \<noteq> [] \<and> (last (product_tokens N p) = Sym '')'' \<or> (\<exists>x. last (product_tokens N p) = Number x))"
  "atom_tokens N a \<noteq> [] \<and> (last (atom_tokens N a) = Sym '')'' \<or> (\<exists>x. last (atom_tokens N a) = Number x))"
  by (induction e and p and a) simp_all

lemma handleUnaryMinus_loop_minus:
  "xs \<noteq> [] \<and> (last xs = Sym '')'' \<or> (\<exists>x. last xs = Number x)) \<Longrightarrow>
   handleUnaryMinus_loop prev (xs @ Sym ''-'' # ys) =
     handleUnaryMinus_loop prev xs @ Sym ''-'' # handleUnaryMinus_loop (Some (Sym ''-'')) ys"
  by (auto simp: handleUnaryMinus_loop_append)

lemma handleUnaryMinus_loop_other:
  "t \<noteq> Sym ''-'' \<Longrightarrow>
   handleUnaryMinus_loop prev (xs @ t # ys) =
     handleUnaryMinus_loop prev xs @ t # handleUnaryMinus_loop (Some t) ys"
  by (simp add: handleUnaryMinus_loop_append)

lemma handleUnaryMinus_loop_tokens:
  "handleUnaryMinus_loop prev (expr_tokens N e) = expr_tokens N e"
  "handleUnaryMinus_loop prev (product_tokens N p) = product_tokens N p"
  "handleUnaryMinus_loop prev (atom_tokens N a) = atom_tokens N a"
proof (induction e and p and a arbitrary: prev and prev and prev)
  case (ESub e p)
  then show ?case
    using expr_tokens_last(1) [of N e] by (simp add: handleUnaryMinus_loop_minus)
qed (simp_all add: handleUnaryMinus_loop_other)

lemma handleUnaryMinus_tokens: "handleUnaryMinus (expr_tokens N e) = expr_tokens N e"
  by (simp add: handleUnaryMinus_def handleUnaryMinus_loop_tokens)

section \<open>Shunting-yard on the tokens of an expression\<close>

lemma shuntingYard_loop_append:
  "shuntingYard_loop (xs @ ys) st =
     (case shuntingYard_loop xs st of Inl e \<Rightarrow> Inl e | Inr st' \<Rightarrow> shuntingYard_loop ys st')"
  by (induction xs arbitrary: st) (simp_all split: sum.splits)

lemma popOperators_precedence:
  "precedence t = precedence t' \<Longrightarrow> popOperators t out ops = popOperators t' out ops"
  by (induction ops arbitrary: out) simp_all

lemma popOperators_plus_keep:
  "ops = [] \<or> hd ops = Sym ''('' \<Longrightarrow> popOperators (Sym ''+'') out ops = (out, ops)"
  by (cases ops) simp_all

lemma popOperators_times_keep:
  "ops = [] \<or> hd ops = Sym ''('' \<or> hd ops = Sym ''+'' \<or> hd ops = Sym ''-'' \<Longrightarrow>
   popOperators (Sym ''*'') out ops = (out, ops)"
  by (cases ops) (auto simp: isOperator_def precedence_def)

lemma popOperators_plus_after_times:
  "popOperators (Sym ''*'') out ops = (out', ops') \<Longrightarrow>
   popOperators (Sym ''+'') out' ops' = popOperators (Sym ''+'') out ops"
proof (induction ops arbitrary: out)
  case Nil
  then show ?case by auto
next
  case (Cons topOp ops)
  show ?case
  proof (cases "topOp \<noteq> Sym ''('' \<and> isOperator topOp \<and> precedence (Sym ''*'' :: 'a token) \<le> precedence topOp")
    case True
    then have "precedence (Sym ''+'' :: 'a token) \<le> precedence topOp"
      by (simp add: precedence_def)
    with True Cons show ?thesis
      by simp
  next
    case False
    with Cons.prems show ?thesis
      by auto
  qed
qed

lemma popToLeftParen_after_popOperators:
  "popOperators t out ops = (out', ops') \<Longrightarrow> popToLeftParen out' ops' = popToLeftParen out ops"
  by (induction ops arbitrary: out) (auto split: if_splits)

lemma popRemaining_after_popOperators:
  "popOperators t out ops = (out', ops') \<Longrightarrow> popRemaining out' ops' = popRemaining out ops"
  by (induction ops arbitrary: out) (auto simp: isOperator_def split: if_splits)

lemma shuntingYard_step_operator:
  assumes "isOperator t" and "popOperators t out ops = (out', ops')"
  shows "shuntingYard_step t (out, ops) = Inr (out', t # ops')"
proof -
  obtain s where "t = Sym s"
    using assms(1) by (cases t) (simp_all add: isOperator_def)
  with assms show ?thesis
    by simp
qed

lemma shuntingYard_step_plus:
  fixes t :: "'a token"
  assumes "precedence t = precedence (Sym ''+'' :: 'a token)" and "isOperator t"
    and "popOperators (Sym ''+'') out ops = (out', ops')"
  shows "shuntingYard_step t (out, ops) = Inr (out', t # ops')"
proof -
  have "popOperators t out ops = (out', ops')"
    using popOperators_precedence [OF assms(1), of out ops] assms(3) by simp
  with assms(2) show ?thesis
    by (rule shuntingYard_step_operator)
qed

lemma shuntingYard_step_times:
  fixes t :: "'a token"
  assumes "precedence t = precedence (Sym ''*'' :: 'a token)" and "isOperator t"
    and "popOperators (Sym ''*'') out ops = (out', ops')"
  shows "shuntingYard_step t (out, ops) = Inr (out', t # ops')"
proof -
  have "popOperators t out ops = (out', ops')"
    using popOperators_precedence [OF assms(1), of out ops] assms(3) by simp
  with assms(2) show ?thesis
    by (rule shuntingYard_step_operator)
qed

text \<open>
  An atom leaves the operator stack as it found it. A product leaves its last operator
  pending on the stack, until an operator of precedence at most 2 arrives; an expression
  likewise, until one of precedence at most 1 or a right parenthesis arrives.
\<close>

lemma shuntingYard_loop_tokens:
  "ops = [] \<or> hd ops = Sym ''('' \<Longrightarrow>
     \<exists>out' ops'. shuntingYard_loop (expr_tokens N e) (out, ops) = Inr (out', ops')
       \<and> popOperators (Sym ''+'') out' ops' = (out @ expr_postfix N e, ops)"
  "ops = [] \<or> hd ops = Sym ''('' \<or> hd ops = Sym ''+'' \<or> hd ops = Sym ''-'' \<Longrightarrow>
     \<exists>out' ops'. shuntingYard_loop (product_tokens N p) (out, ops) = Inr (out', ops')
       \<and> popOperators (Sym ''*'') out' ops' = (out @ product_postfix N p, ops)"
  "shuntingYard_loop (atom_tokens N a) (out, ops) = Inr (out @ atom_postfix N a, ops)"
proof (induction e and p and a arbitrary: out ops and out ops and out ops)
  case (EProduct p)
  then have "ops = [] \<or> hd ops = Sym ''('' \<or> hd ops = Sym ''+'' \<or> hd ops = Sym ''-''"
    by blast
  from EProduct.IH [OF this, of out] obtain out' ops' where
    run: "shuntingYard_loop (product_tokens N p) (out, ops) = Inr (out', ops')" and
    pop: "popOperators (Sym ''*'') out' ops' = (out @ product_postfix N p, ops)"
    by blast
  have "popOperators (Sym ''+'') out' ops' = popOperators (Sym ''+'') (out @ product_postfix N p) ops"
    using popOperators_plus_after_times [OF pop] by simp
  also have "\<dots> = (out @ product_postfix N p, ops)"
    using EProduct.prems by (rule popOperators_plus_keep)
  finally show ?case
    using run by simp
next
  case (EAdd e p)
  from EAdd.IH(1) [OF EAdd.prems, of out] obtain out1 ops1 where
    run1: "shuntingYard_loop (expr_tokens N e) (out, ops) = Inr (out1, ops1)" and
    pop1: "popOperators (Sym ''+'') out1 ops1 = (out @ expr_postfix N e, ops)"
    by blast
  have step: "shuntingYard_step (Sym ''+'') (out1, ops1) = Inr (out @ expr_postfix N e, Sym ''+'' # ops)"
    using pop1 by (intro shuntingYard_step_plus) (simp_all add: isOperator_def)
  from EAdd.IH(2) [of "Sym ''+'' # ops" "out @ expr_postfix N e"] obtain out2 ops2 where
    run2: "shuntingYard_loop (product_tokens N p) (out @ expr_postfix N e, Sym ''+'' # ops) = Inr (out2, ops2)" and
    pop2: "popOperators (Sym ''*'') out2 ops2 = ((out @ expr_postfix N e) @ product_postfix N p, Sym ''+'' # ops)"
    by auto
  have "popOperators (Sym ''+'') out2 ops2 =
        popOperators (Sym ''+'') ((out @ expr_postfix N e) @ product_postfix N p) (Sym ''+'' # ops)"
    using popOperators_plus_after_times [OF pop2] by simp
  also have "\<dots> = popOperators (Sym ''+'') (out @ expr_postfix N (EAdd e p)) ops"
    by (simp add: isOperator_def)
  also have "\<dots> = (out @ expr_postfix N (EAdd e p), ops)"
    using EAdd.prems by (rule popOperators_plus_keep)
  finally show ?case
    using run1 step run2 by (simp add: shuntingYard_loop_append)
next
  case (ESub e p)
  from ESub.IH(1) [OF ESub.prems, of out] obtain out1 ops1 where
    run1: "shuntingYard_loop (expr_tokens N e) (out, ops) = Inr (out1, ops1)" and
    pop1: "popOperators (Sym ''+'') out1 ops1 = (out @ expr_postfix N e, ops)"
    by blast
  have step: "shuntingYard_step (Sym ''-'') (out1, ops1) = Inr (out @ expr_postfix N e, Sym ''-'' # ops)"
    using pop1 by (intro shuntingYard_step_plus) (simp_all add: isOperator_def precedence_def)
  from ESub.IH(2) [of "Sym ''-'' # ops" "out @ expr_postfix N e"] obtain out2 ops2 where
    run2: "shuntingYard_loop (product_tokens N p) (out @ expr_postfix N e, Sym ''-'' # ops) = Inr (out2, ops2)" and
    pop2: "popOperators (Sym ''*'') out2 ops2 = ((out @ expr_postfix N e) @ product_postfix N p, Sym ''-'' # ops)"
    by auto
  have "popOperators (Sym ''+'') out2 ops2 =
        popOperators (Sym ''+'') ((out @ expr_postfix N e) @ product_postfix N p) (Sym ''-'' # ops)"
    using popOperators_plus_after_times [OF pop2] by simp
  also have "\<dots> = popOperators (Sym ''+'') (out @ expr_postfix N (ESub e p)) ops"
    by (simp add: isOperator_def precedence_def)
  also have "\<dots> = (out @ expr_postfix N (ESub e p), ops)"
    using ESub.prems by (rule popOperators_plus_keep)
  finally show ?case
    using run1 step run2 by (simp add: shuntingYard_loop_append)
next
  case (PAtom a)
  then show ?case
    by (simp add: popOperators_times_keep)
next
  case (PMul p a)
  from PMul.IH(1) [OF PMul.prems, of out] obtain out1 ops1 where
    run1: "shuntingYard_loop (product_tokens N p) (out, ops) = Inr (out1, ops1)" and
    pop1: "popOperators (Sym ''*'') out1 ops1 = (out @ product_postfix N p, ops)"
    by blast
  have step: "shuntingYard_step (Sym ''*'') (out1, ops1) = Inr (out @ product_postfix N p, Sym ''*'' # ops)"
    using pop1 by (intro shuntingYard_step_times) (simp_all add: isOperator_def)
  have run2: "shuntingYard_loop (atom_tokens N a) (out @ product_postfix N p, Sym ''*'' # ops) =
              Inr ((out @ product_postfix N p) @ atom_postfix N a, Sym ''*'' # ops)"
    by (rule PMul.IH(2))
  have "popOperators (Sym ''*'') ((out @ product_postfix N p) @ atom_postfix N a) (Sym ''*'' # ops) =
        popOperators (Sym ''*'') (out @ product_postfix N (PMul p a)) ops"
    by (simp add: isOperator_def)
  also have "\<dots> = (out @ product_postfix N (PMul p a), ops)"
    using PMul.prems by (rule popOperators_times_keep)
  finally show ?case
    using run1 step run2 by (simp add: shuntingYard_loop_append)
next
  case (PDiv p a)
  from PDiv.IH(1) [OF PDiv.prems, of out] obtain out1 ops1 where
    run1: "shuntingYard_loop (product_tokens N p) (out, ops) = Inr (out1, ops1)" and
    pop1: "popOperators (Sym ''*'') out1 ops1 = (out @ product_postfix N p, ops)"
    by blast
  have step: "shuntingYard_step (Sym ''/'') (out1, ops1) = Inr (out @ product_postfix N p, Sym ''/'' # ops)"
    using pop1 by (intro shuntingYard_step_times) (simp_all add: isOperator_def precedence_def)
  have run2: "shuntingYard_loop (atom_tokens N a) (out @ product_postfix N p, Sym ''/'' # ops) =
              Inr ((out @ product_postfix N p) @ atom_postfix N a, Sym ''/'' # ops)"
    by (rule PDiv.IH(2))
  have "popOperators (Sym ''*'') ((out @ product_postfix N p) @ atom_postfix N a) (Sym ''/'' # ops) =
        popOperators (Sym ''*'') (out @ product_postfix N (PDiv p a)) ops"
    by (simp add: isOperator_def precedence_def)
  also have "\<dots> = (out @ product_postfix N (PDiv p a), ops)"
    using PDiv.prems by (rule popOperators_times_keep)
  finally show ?case
    using run1 step run2 by (simp add: shuntingYard_loop_append)
next
  case (ALiteral d ds)
  show ?case by simp
next
  case (AParen e)
  from AParen.IH [of "Sym ''('' # ops" out] obtain out1 ops1 where
    run1: "shuntingYard_loop (expr_tokens N e) (out, Sym ''('' # ops) = Inr (out1, ops1)" and
    pop1: "popOperators (Sym ''+'') out1 ops1 = (out @ expr_postfix N e, Sym ''('' # ops)"
    by auto
  have "popToLeftParen out1 ops1 = popToLeftParen (out @ expr_postfix N e) (Sym ''('' # ops)"
    using popToLeftParen_after_popOperators [OF pop1] by simp
  then have close: "shuntingYard_step (Sym '')'') (out1, ops1) = Inr (out @ expr_postfix N e, ops)"
    by (simp add: isOperator_def)
  have "shuntingYard_step (Sym ''('') (out, ops) = Inr (out, Sym ''('' # ops)"
    by (simp add: isOperator_def)
  with run1 close show ?case
    by (simp add: shuntingYard_loop_append)
qed

lemma shuntingYard_tokens: "shuntingYard (expr_tokens N e) = Inr (expr_postfix N e)"
proof -
  from shuntingYard_loop_tokens(1) [of "[]" N e "[]"] obtain out' ops' where
    run: "shuntingYard_loop (expr_tokens N e) ([], []) = Inr (out', ops')" and
    pop: "popOperators (Sym ''+'') out' ops' = (expr_postfix N e, [])"
    by auto
  have "popRemaining out' ops' = popRemaining (expr_postfix N e) []"
    using popRemaining_after_popOperators [OF pop] by simp
  with run show ?thesis
    by (simp add: shuntingYard_def)
qed

section \<open>Evaluation of the postfix form\<close>

lemma evalRPN_loop_append:
  "evalRPN_loop N (xs @ ys) stack =
     (case evalRPN_loop N xs stack of Inl e \<Rightarrow> Inl e | Inr stack' \<Rightarrow> evalRPN_loop N ys stack')"
  by (induction xs arbitrary: stack) (simp_all split: sum.splits)

lemma evalRPN_loop_postfix:
  "evalRPN_loop N (expr_postfix N e) stack =
     (case expr_value N e of None \<Rightarrow> Inl ''Division by zero'' | Some v \<Rightarrow> Inr (v # stack))"
  "evalRPN_loop N (product_postfix N p) stack =
     (case product_value N p of None \<Rightarrow> Inl ''Division by zero'' | Some v \<Rightarrow> Inr (v # stack))"
  "evalRPN_loop N (atom_postfix N a) stack =
     (case atom_value N a of None \<Rightarrow> Inl ''Division by zero'' | Some v \<Rightarrow> Inr (v # stack))"
  by (induction e and p and a arbitrary: stack and stack and stack)
     (simp_all add: evalRPN_loop_append isOperator_def applyOperator_def split: option.splits)

lemma evalRPN_postfix:
  "evalRPN N (expr_postfix N e) =
     (case expr_value N e of None \<Rightarrow> Inl ''Division by zero'' | Some v \<Rightarrow> Inr v)"
  by (simp add: evalRPN_def evalRPN_loop_postfix split: option.splits)

lemma evaluate_expr_text:
  assumes "filter (\<lambda>c. \<not> isSpace c) s = expr_text e"
  shows "evaluate N s =
     (case expr_value N e of None \<Rightarrow> Inl ''Division by zero'' | Some v \<Rightarrow> Inr v)"
  by (simp add: evaluate_def tokenize_expr_text [OF assms] toRPN_def handleUnaryMinus_tokens
      shuntingYard_tokens evalRPN_postfix)

section \<open>Standard arithmetic on well-formed expressions\<close>

text \<open>
  C1. For every well-formed expression over integer literals, the binary operators
  \<^verbatim>\<open>+ - * /\<close> and parentheses, written with any amount of whitespace, \<open>calculate\<close>
  returns the formatted value of the expression under standard infix arithmetic:
  \<^verbatim>\<open>*\<close> and \<^verbatim>\<open>/\<close> bind tighter than \<^verbatim>\<open>+\<close> and \<^verbatim>\<open>-\<close>, operators of the same
  precedence are evaluated left to right. Where the expression has no value, because a
  divisor is zero, it returns the division-by-zero error. In particular
  \<^verbatim>\<open>calculate("2+3*4")\<close> is \<^verbatim>\<open>"14"\<close> and \<^verbatim>\<open>calculate("(2+3)*4")\<close> is \<^verbatim>\<open>"20"\<close>.
\<close>

theorem calculate_standard_infix_arithmetic:
  "(filter (\<lambda>c. \<not> isSpace c) s = expr_text e \<longrightarrow>
      calculate N s =
        (case expr_value N e of
           None \<Rightarrow> ''ERROR: Division by zero''
         | Some v \<Rightarrow> formatResult N v))
   \<and> calculate N ''2+3*4'' =
       formatResult N (js_add N (parseFloat N ''2'') (js_mul N (parseFloat N ''3'') (parseFloat N ''4'')))
   \<and> calculate N ''(2+3)*4'' =
       formatResult N (js_mul N (js_add N (parseFloat N ''2'') (parseFloat N ''3'')) (parseFloat N ''4''))
   \<and> calculate exact ''2+3*4'' = ''14''
   \<and> calculate exact ''(2+3)*4'' = ''20''"
proof (intro conjI impI)
  assume "filter (\<lambda>c. \<not> isSpace c) s = expr_text e"
  then show "calculate N s =
      (case expr_value N e of None \<Rightarrow> ''ERROR: Division by zero'' | Some v \<Rightarrow> formatResult N v)"
    by (simp add: calculate_def evaluate_expr_text split: option.splits)
next
  show "calculate N ''2+3*4'' =
      formatResult N (js_add N (parseFloat N ''2'') (js_mul N (parseFloat N ''3'') (parseFloat N ''4'')))"
    by (simp add: calculate_def evaluate_def tokenize_def isSpace_def isDigit_def toRPN_def
        handleUnaryMinus_def shuntingYard_def isOperator_def precedence_def evalRPN_def
        applyOperator_def)
next
  show "calculate N ''(2+3)*4'' =
      formatResult N (js_mul N (js_add N (parseFloat N ''2'') (parseFloat N ''3'')) (parseFloat N ''4''))"
    by (simp add: calculate_def evaluate_def tokenize_def isSpace_def isDigit_def toRPN_def
        handleUnaryMinus_def shuntingYard_def isOperator_def precedence_def evalRPN_def
        applyOperator_def)
next
  show "calculate exact ''2+3*4'' = ''14''"
    by code_simp
next
  show "calculate exact ''(2+3)*4'' = ''20''"
    by code_simp
qed

theorem calculate_standard_infix_arithmetic_witness:
  "filter (\<lambda>c. \<not> isSpace c) ''8 / 4 / 2 - 3 * (1 + 2)'' =
     expr_text (ESub (EProduct (PDiv (PDiv (PAtom (ALiteral D8 [])) (ALiteral D4 [])) (ALiteral D2 [])))
                  (PMul (PAtom (ALiteral D3 []))
                     (AParen (EAdd (EProduct (PAtom (ALiteral D1 []))) (PAtom (ALiteral D2 []))))))
   \<and> calculate exact ''8 / 4 / 2 - 3 * (1 + 2)'' = ''-8''"
proof -
  let ?e = "ESub (EProduct (PDiv (PDiv (PAtom (ALiteral D8 [])) (ALiteral D4 [])) (ALiteral D2 [])))
                  (PMul (PAtom (ALiteral D3 []))
                     (AParen (EAdd (EProduct (PAtom (ALiteral D1 []))) (PAtom (ALiteral D2 [])))))"
  have shape: "filter (\<lambda>c. \<not> isSpace c) ''8 / 4 / 2 - 3 * (1 + 2)'' = expr_text ?e"
    by (simp add: isSpace_def)
  have "expr_value exact ?e = Some (- 8)"
    by code_simp
  moreover have "formatResult exact (- 8) = ''-8''"
    by code_simp
  ultimately show ?thesis
    using shape calculate_standard_infix_arithmetic [of "''8 / 4 / 2 - 3 * (1 + 2)''" ?e exact]
    by simp
qed

section \<open>The errors of each stage\<close>

lemma tokenize_loop_error: "tokenize_loop N s tokens = Inl m \<Longrightarrow> m = ''Invalid character''"
  by (induction N s tokens rule: tokenize_loop.induct) (auto split: if_splits)

lemma tokenize_error:
  "tokenize N s = Inl m \<Longrightarrow> m = ''Invalid character'' \<or> m = ''Malformed expression''"
  by (auto simp: tokenize_def Let_def split: if_splits dest: tokenize_loop_error)

lemma shuntingYard_step_error: "shuntingYard_step t st = Inl m \<Longrightarrow> m = ''Mismatched parentheses''"
  by (cases st; cases t) (auto split: if_splits prod.splits)

lemma shuntingYard_loop_error: "shuntingYard_loop ts st = Inl m \<Longrightarrow> m = ''Mismatched parentheses''"
  by (induction ts arbitrary: st) (auto split: sum.splits dest: shuntingYard_step_error)

lemma popRemaining_error: "popRemaining out ops = Inl m \<Longrightarrow> m = ''Mismatched parentheses''"
  by (induction ops arbitrary: out) (auto split: if_splits)

lemma shuntingYard_error: "shuntingYard ts = Inl m \<Longrightarrow> m = ''Mismatched parentheses''"
  by (auto simp: shuntingYard_def split: sum.splits prod.splits
      dest: shuntingYard_loop_error popRemaining_error)

lemma toRPN_error: "toRPN ts = Inl m \<Longrightarrow> m = ''Mismatched parentheses''"
  by (simp add: toRPN_def shuntingYard_error)

lemma applyOperator_error:
  "applyOperator N op operands = Inl m \<Longrightarrow> m = ''Division by zero'' \<or> m = ''Malformed expression''"
  by (auto simp: applyOperator_def split: if_splits)

lemma evalRPN_step_error:
  "evalRPN_step N t stack = Inl m \<Longrightarrow> m = ''Division by zero'' \<or> m = ''Malformed expression''"
  by (cases t) (auto split: if_splits list.splits sum.splits dest: applyOperator_error)

lemma evalRPN_loop_error:
  "evalRPN_loop N rpn stack = Inl m \<Longrightarrow> m = ''Division by zero'' \<or> m = ''Malformed expression''"
  by (induction rpn arbitrary: stack) (auto split: sum.splits dest: evalRPN_step_error)

lemma evalRPN_error:
  "evalRPN N rpn = Inl m \<Longrightarrow> m = ''Division by zero'' \<or> m = ''Malformed expression''"
  by (auto simp: evalRPN_def split: sum.splits if_splits dest: evalRPN_loop_error)

lemma evaluate_error:
  assumes "evaluate N s = Inl m"
  shows "m = ''Invalid character'' \<or> m = ''Malformed expression''
    \<or> m = ''Mismatched parentheses'' \<or> m = ''Division by zero''"
proof (cases "tokenize N s")
  case (Inl e)
  with assms have "tokenize N s = Inl m"
    by (simp add: evaluate_def)
  from tokenize_error [OF this] show ?thesis
    by auto
next
  case tokens: (Inr ts)
  show ?thesis
  proof (cases "toRPN ts")
    case (Inl e)
    with assms tokens have "toRPN ts = Inl m"
      by (simp add: evaluate_def)
    from toRPN_error [OF this] show ?thesis
      by auto
  next
    case (Inr rpn)
    with assms tokens have "evalRPN N rpn = Inl m"
      by (simp add: evaluate_def)
    from evalRPN_error [OF this] show ?thesis
      by auto
  qed
qed

text \<open>
  C2. For every input string \<open>calculate\<close> returns a string: the formatted result, or,
  when tokenization, the conversion to postfix (which includes the unary-minus pass, itself
  without failure) or the evaluation fails, \<^verbatim>\<open>"ERROR: "\<close> followed by the message of the
  failure, which is one of the four messages.
\<close>

theorem calculate_error_boundary:
  "((\<exists>result. evaluate N s = Inr result \<and> calculate N s = formatResult N result)
    \<or> (\<exists>message. evaluate N s = Inl message \<and> calculate N s = ''ERROR: '' @ message
          \<and> message \<in> set [''Invalid character'', ''Malformed expression'',
               ''Mismatched parentheses'', ''Division by zero'']))
   \<and> (\<forall>message. tokenize N s = Inl message \<longrightarrow>
          calculate N s = ''ERROR: '' @ message
          \<and> message \<in> set [''Invalid character'', ''Malformed expression''])
   \<and> (\<forall>tokens message. tokenize N s = Inr tokens \<and> toRPN tokens = Inl message \<longrightarrow>
          calculate N s = ''ERROR: '' @ message \<and> message = ''Mismatched parentheses'')
   \<and> (\<forall>tokens rpn message.
          tokenize N s = Inr tokens \<and> toRPN tokens = Inr rpn \<and> evalRPN N rpn = Inl message \<longrightarrow>
          calculate N s = ''ERROR: '' @ message
          \<and> message \<in> set [''Malformed expression'', ''Division by zero''])"
proof (intro conjI allI impI)
  show "(\<exists>result. evaluate N s = Inr result \<and> calculate N s = formatResult N result)
    \<or> (\<exists>message. evaluate N s = Inl message \<and> calculate N s = ''ERROR: '' @ message
          \<and> message \<in> set [''Invalid character'', ''Malformed expression'',
               ''Mismatched parentheses'', ''Division by zero''])"
  proof (cases "evaluate N s")
    case (Inl message)
    then show ?thesis
      using evaluate_error [of N s message] by (simp add: calculate_def del: append.simps)
  next
    case (Inr result)
    then show ?thesis
      by (simp add: calculate_def)
  qed
next
  fix message
  assume "tokenize N s = Inl message"
  then show "calculate N s = ''ERROR: '' @ message"
    by (simp add: calculate_def evaluate_def)
next
  fix message
  assume "tokenize N s = Inl message"
  then show "message \<in> set [''Invalid character'', ''Malformed expression'']"
    using tokenize_error [of N s message] by auto
next
  fix tokens message
  assume "tokenize N s = Inr tokens \<and> toRPN tokens = Inl message"
  then show "calculate N s = ''ERROR: '' @ message"
    by (simp add: calculate_def evaluate_def)
next
  fix tokens message
  assume "tokenize N s = Inr tokens \<and> toRPN tokens = Inl message"
  then show "message = ''Mismatched parentheses''"
    using toRPN_error [of tokens message] by simp
next
  fix tokens rpn message
  assume "tokenize N s = Inr tokens \<and> toRPN tokens = Inr rpn \<and> evalRPN N rpn = Inl message"
  then show "calculate N s = ''ERROR: '' @ message"
    by (simp add: calculate_def evaluate_def)
next
  fix tokens rpn message
  assume "tokenize N s = Inr tokens \<and> toRPN tokens = Inr rpn \<and> evalRPN N rpn = Inl message"
  then show "message \<in> set [''Malformed expression'', ''Division by zero'']"
    using evalRPN_error [of N rpn message] by auto
qed

theorem calculate_error_boundary_witness:
  "tokenize exact ''2+@'' = Inl ''Invalid character''
   \<and> calculate exact ''2+@'' = ''ERROR: Invalid character''
   \<and> tokenize exact ''(1+2'' = Inr [Sym ''('', Number 1, Sym ''+'', Number 2]
   \<and> toRPN [Sym ''('', Number (1 :: rat), Sym ''+'', Number 2] = Inl ''Mismatched parentheses''
   \<and> calculate exact ''(1+2'' = ''ERROR: Mismatched parentheses''
   \<and> tokenize exact ''1+'' = Inr [Number 1, Sym ''+'']
   \<and> toRPN [Number (1 :: rat), Sym ''+''] = Inr [Number 1, Sym ''+'']
   \<and> evalRPN exact [Number 1, Sym ''+''] = Inl ''Malformed expression''
   \<and> calculate exact ''1+'' = ''ERROR: Malformed expression''"
proof -
  have t1: "tokenize exact ''2+@'' = Inl ''Invalid character''"
    by code_simp
  have t2: "tokenize exact ''(1+2'' = Inr [Sym ''('', Number 1, Sym ''+'', Number 2]"
    by code_simp
  have r2: "toRPN [Sym ''('', Number (1 :: rat), Sym ''+'', Number 2] = Inl ''Mismatched parentheses''"
    by code_simp
  have t3: "tokenize exact ''1+'' = Inr [Number 1, Sym ''+'']"
    by code_simp
  have r3: "toRPN [Number (1 :: rat), Sym ''+''] = Inr [Number 1, Sym ''+'']"
    by code_simp
  have e3: "evalRPN exact [Number 1, Sym ''+''] = Inl ''Malformed expression''"
    by code_simp
  have c1: "calculate exact ''2+@'' = ''ERROR: Invalid character''"
    using calculate_error_boundary [of exact "''2+@''"] t1 by simp
  have c2: "calculate exact ''(1+2'' = ''ERROR: Mismatched parentheses''"
    using calculate_error_boundary [of exact "''(1+2''"] t2 r2 by simp
  have c3: "calculate exact ''1+'' = ''ERROR: Malformed expression''"
    using calculate_error_boundary [of exact "''1+''"] t3 r3 e3 by simp
  from t1 t2 r2 t3 r3 e3 c1 c2 c3 show ?thesis
    by simp
qed

text \<open>
  C3. The evaluator pushes numbers on the operand stack, and a binary operator takes the
  value pushed last as its right operand and the one pushed before it as its left operand,
  and pushes \<open>left OP right\<close>. So the postfix form of \<^verbatim>\<open>10-2-3\<close> evaluates to
  \<open>(10 - 2) - 3 = 5\<close>.
\<close>

theorem evalRPN_operand_order:
  "evalRPN_loop N [Number left, Number right] stack = Inr (right # left # stack)
   \<and> evalRPN_step N (Sym ''+'') (right # left # stack) = Inr (js_add N left right # stack)
   \<and> evalRPN_step N (Sym ''-'') (right # left # stack) = Inr (js_sub N left right # stack)
   \<and> evalRPN_step N (Sym ''*'') (right # left # stack) = Inr (js_mul N left right # stack)
   \<and> evalRPN_step N (Sym ''/'') (right # left # stack) =
       (if js_eq N right (js_zero N) then Inl ''Division by zero''
        else Inr (js_div N left right # stack))
   \<and> (case tokenize N ''10-2-3'' of Inl e \<Rightarrow> Inl e | Inr tokens \<Rightarrow> toRPN tokens) =
       Inr [Number (parseFloat N ''10''), Number (parseFloat N ''2''), Sym ''-'',
            Number (parseFloat N ''3''), Sym ''-'']
   \<and> evalRPN N [Number a, Number b, Sym ''-'', Number c, Sym ''-''] =
       Inr (js_sub N (js_sub N a b) c)
   \<and> evalRPN exact [Number 10, Number 2, Sym ''-'', Number 3, Sym ''-''] = Inr 5
   \<and> calculate exact ''10-2-3'' = ''5''"
proof (intro conjI)
  show "(case tokenize N ''10-2-3'' of Inl e \<Rightarrow> Inl e | Inr tokens \<Rightarrow> toRPN tokens) =
       Inr [Number (parseFloat N ''10''), Number (parseFloat N ''2''), Sym ''-'',
            Number (parseFloat N ''3''), Sym ''-'']"
    by (simp add: tokenize_def isSpace_def isDigit_def toRPN_def handleUnaryMinus_def
        shuntingYard_def isOperator_def precedence_def)
next
  show "evalRPN exact [Number 10, Number 2, Sym ''-'', Number 3, Sym ''-''] = Inr 5"
    by (simp add: evalRPN_def isOperator_def applyOperator_def exact_def)
next
  show "calculate exact ''10-2-3'' = ''5''"
    by code_simp
qed (simp_all add: evalRPN_def isOperator_def applyOperator_def)

theorem evalRPN_operand_order_witness:
  "evalRPN_step exact (Sym ''-'') [3, 8] = Inr [5]
   \<and> evalRPN_step exact (Sym ''/'') [4, 8] = Inr [2]"
  using evalRPN_operand_order [of exact 8 3 "[]"] evalRPN_operand_order [of exact 8 4 "[]"]
  by (simp add: exact_def)

section \<open>Division by zero\<close>

lemma evalRPN_step_division_by_zero:
  "evalRPN_step N t stack0 = Inl ''Division by zero'' \<longleftrightarrow>
     t = Sym ''/'' \<and> (\<exists>right left stack. stack0 = right # left # stack \<and> js_eq N right (js_zero N))"
proof (cases t)
  case (Number x)
  then show ?thesis by simp
next
  case (Sym op)
  show ?thesis
  proof (cases "op = ''/''")
    case True
    with Sym show ?thesis
      by (auto simp: isOperator_def applyOperator_def split: list.splits)
  next
    case False
    with Sym show ?thesis
      by (auto simp: isOperator_def applyOperator_def split: list.splits)
  qed
qed

lemma evalRPN_loop_division_by_zero:
  "evalRPN_loop N rpn stack0 = Inl ''Division by zero'' \<longleftrightarrow>
     (\<exists>pre post right left stack.
        rpn = pre @ Sym ''/'' # post
        \<and> evalRPN_loop N pre stack0 = Inr (right # left # stack)
        \<and> js_eq N right (js_zero N))"
proof (induction rpn arbitrary: stack0)
  case Nil
  show ?case by simp
next
  case (Cons t ts)
  show ?case
  proof (cases "evalRPN_step N t stack0")
    case (Inl e)
    have "(\<exists>pre post right left stack.
             t # ts = pre @ Sym ''/'' # post
             \<and> evalRPN_loop N pre stack0 = Inr (right # left # stack)
             \<and> js_eq N right (js_zero N)) \<longleftrightarrow>
          t = Sym ''/'' \<and> (\<exists>right left stack. stack0 = right # left # stack \<and> js_eq N right (js_zero N))"
      (is "?R \<longleftrightarrow> ?S")
    proof
      assume ?R
      then obtain pre post right left stack where
        split: "t # ts = pre @ Sym ''/'' # post" and
        run: "evalRPN_loop N pre stack0 = Inr (right # left # stack)" and
        zero: "js_eq N right (js_zero N)"
        by auto
      from run Inl have "pre = []"
        using split by (cases pre) auto
      with split run zero show ?S
        by auto
    next
      assume ?S
      then obtain right left stack where
        "t = Sym ''/''" "stack0 = right # left # stack" "js_eq N right (js_zero N)"
        by auto
      then have "t # ts = [] @ Sym ''/'' # ts
          \<and> evalRPN_loop N [] stack0 = Inr (right # left # stack) \<and> js_eq N right (js_zero N)"
        by simp
      then show ?R
        by (intro exI)
    qed
    moreover have "evalRPN_loop N (t # ts) stack0 = Inl ''Division by zero'' \<longleftrightarrow>
        evalRPN_step N t stack0 = Inl ''Division by zero''"
      using Inl by simp
    ultimately show ?thesis
      by (simp only: evalRPN_step_division_by_zero)
  next
    case (Inr stack1)
    have "(\<exists>pre post right left stack.
             t # ts = pre @ Sym ''/'' # post
             \<and> evalRPN_loop N pre stack0 = Inr (right # left # stack)
             \<and> js_eq N right (js_zero N)) \<longleftrightarrow>
          (\<exists>pre post right left stack.
             ts = pre @ Sym ''/'' # post
             \<and> evalRPN_loop N pre stack1 = Inr (right # left # stack)
             \<and> js_eq N right (js_zero N))"
      (is "?R \<longleftrightarrow> ?S")
    proof
      assume ?R
      then obtain pre post right left stack where
        split: "t # ts = pre @ Sym ''/'' # post" and
        run: "evalRPN_loop N pre stack0 = Inr (right # left # stack)" and
        zero: "js_eq N right (js_zero N)"
        by auto
      have "pre \<noteq> []"
      proof
        assume "pre = []"
        with split run zero have "t = Sym ''/'' \<and>
            (\<exists>right left stack. stack0 = right # left # stack \<and> js_eq N right (js_zero N))"
          by auto
        then have "evalRPN_step N t stack0 = Inl ''Division by zero''"
          by (simp only: evalRPN_step_division_by_zero)
        with Inr show False
          by simp
      qed
      then obtain pre' where pre: "pre = t # pre'"
        using split by (cases pre) auto
      with split run Inr have "ts = pre' @ Sym ''/'' # post
          \<and> evalRPN_loop N pre' stack1 = Inr (right # left # stack)"
        by simp
      with zero show ?S
        by auto
    next
      assume ?S
      then obtain pre post right left stack where
        split: "ts = pre @ Sym ''/'' # post" and
        run: "evalRPN_loop N pre stack1 = Inr (right # left # stack)" and
        zero: "js_eq N right (js_zero N)"
        by auto
      from split run zero Inr have "t # ts = (t # pre) @ Sym ''/'' # post
          \<and> evalRPN_loop N (t # pre) stack0 = Inr (right # left # stack)
          \<and> js_eq N right (js_zero N)"
        by simp
      then show ?R
        by (intro exI)
    qed
    moreover have "evalRPN_loop N (t # ts) stack0 = Inl ''Division by zero'' \<longleftrightarrow>
        evalRPN_loop N ts stack1 = Inl ''Division by zero''"
      using Inr by simp
    ultimately show ?thesis
      by (simp only: Cons.IH)
  qed
qed

lemma evalRPN_division_by_zero:
  "evalRPN N rpn = Inl ''Division by zero'' \<longleftrightarrow>
     evalRPN_loop N rpn [] = Inl ''Division by zero''"
  by (cases "evalRPN_loop N rpn []") (simp_all add: evalRPN_def)

text \<open>
  C5. \<open>applyOperator\<close> fails with the division-by-zero error exactly when the operator
  is \<^verbatim>\<open>/\<close> and its right operand (\<^verbatim>\<open>operands[0]\<close>) is zero, and then no quotient is
  computed; the evaluator fails with this error exactly when it reaches a \<^verbatim>\<open>/\<close> with, at
  that moment, a zero on top of at least two operands. In particular
  \<^verbatim>\<open>calculate("10/0")\<close> is \<^verbatim>\<open>"ERROR: Division by zero"\<close>.
\<close>

theorem division_by_zero_exactly:
  "(applyOperator N op operands = Inl ''Division by zero'' \<longleftrightarrow>
      op = ''/'' \<and> js_eq N (operands ! 0) (js_zero N))
   \<and> (js_eq N (operands ! 0) (js_zero N) \<or>
        applyOperator N ''/'' operands = Inr (js_div N (operands ! 1) (operands ! 0)))
   \<and> (evalRPN N rpn = Inl ''Division by zero'' \<longleftrightarrow>
        (\<exists>pre post right left stack.
           rpn = pre @ Sym ''/'' # post
           \<and> evalRPN_loop N pre [] = Inr (right # left # stack)
           \<and> js_eq N right (js_zero N)))
   \<and> calculate N ''10/0'' =
        (if js_eq N (parseFloat N ''0'') (js_zero N) then ''ERROR: Division by zero''
         else formatResult N (js_div N (parseFloat N ''10'') (parseFloat N ''0'')))
   \<and> calculate exact ''10/0'' = ''ERROR: Division by zero''"
proof (intro conjI)
  show "applyOperator N op operands = Inl ''Division by zero'' \<longleftrightarrow>
      op = ''/'' \<and> js_eq N (operands ! 0) (js_zero N)"
    by (auto simp: applyOperator_def)
next
  show "js_eq N (operands ! 0) (js_zero N) \<or>
        applyOperator N ''/'' operands = Inr (js_div N (operands ! 1) (operands ! 0))"
    by (simp add: applyOperator_def)
next
  show "evalRPN N rpn = Inl ''Division by zero'' \<longleftrightarrow>
        (\<exists>pre post right left stack.
           rpn = pre @ Sym ''/'' # post
           \<and> evalRPN_loop N pre [] = Inr (right # left # stack)
           \<and> js_eq N right (js_zero N))"
    by (simp only: evalRPN_division_by_zero evalRPN_loop_division_by_zero)
next
  show "calculate N ''10/0'' =
        (if js_eq N (parseFloat N ''0'') (js_zero N) then ''ERROR: Division by zero''
         else formatResult N (js_div N (parseFloat N ''10'') (parseFloat N ''0'')))"
    by (simp add: calculate_def evaluate_def tokenize_def isSpace_def isDigit_def toRPN_def
        handleUnaryMinus_def shuntingYard_def isOperator_def precedence_def evalRPN_def
        applyOperator_def)
next
  show "calculate exact ''10/0'' = ''ERROR: Division by zero''"
    by code_simp
qed

theorem division_by_zero_exactly_witness:
  "evalRPN exact ([Number 1, Number 2, Number 0] @ Sym ''/'' # [Sym ''+'']) = Inl ''Division by zero''
   \<and> applyOperator exact ''/'' [0, 5] = Inl ''Division by zero''
   \<and> applyOperator exact ''/'' [2, 6] = Inr 3"
proof -
  have "evalRPN_loop exact [Number 1, Number 2, Number 0] [] = Inr [0, 2, 1]"
    by simp
  moreover have "js_eq exact 0 (js_zero exact)"
    by (simp add: exact_def)
  ultimately have "\<exists>pre post right left stack.
      [Number 1, Number 2, Number 0] @ Sym ''/'' # [Sym ''+''] = pre @ Sym ''/'' # post
      \<and> evalRPN_loop exact pre [] = Inr (right # left # stack)
      \<and> js_eq exact right (js_zero exact)"
    by blast
  then have "evalRPN exact ([Number 1, Number 2, Number 0] @ Sym ''/'' # [Sym ''+'']) = Inl ''Division by zero''"
    using division_by_zero_exactly [of exact "''/''" "[0, 5]" "[Number 1, Number 2, Number 0] @ Sym ''/'' # [Sym ''+'']"]
    by simp
  moreover have "applyOperator exact ''/'' [0, 5] = Inl ''Division by zero''"
    using division_by_zero_exactly [of exact "''/''" "[0, 5]" "[]"]
    by (simp add: exact_def)
  moreover have "applyOperator exact ''/'' [2, 6] = Inr 3"
    using division_by_zero_exactly [of exact "''/''" "[2, 6]" "[]"]
    by (simp add: exact_def)
  ultimately show ?thesis
    by simp
qed

section \<open>Unary minus, position by position\<close>

lemma handleUnaryMinus_loop_length: "length (handleUnaryMinus_loop prev tokens) = length tokens"
  by (induction tokens arbitrary: prev) simp_all

lemma handleUnaryMinus_loop_nth:
  "i < length tokens \<Longrightarrow>
   handleUnaryMinus_loop prev tokens ! i =
     (if tokens ! i = Sym ''-''
         \<and> (if i = 0 then prev = None \<or> prev \<in> Some ` set [Sym ''('', Sym ''+'', Sym ''-'', Sym ''*'', Sym ''/'']
             else tokens ! (i - 1) \<in> set [Sym ''('', Sym ''+'', Sym ''-'', Sym ''*'', Sym ''/''])
      then Sym ''NEG'' else tokens ! i)"
proof (induction tokens arbitrary: prev i)
  case Nil
  then show ?case by simp
next
  case (Cons t ts)
  show ?case
  proof (cases i)
    case 0
    then show ?thesis
      by auto
  next
    case (Suc j)
    with Cons.prems have "j < length ts"
      by simp
    from Cons.IH [OF this, of "Some t"] Suc show ?thesis
      by (cases j) auto
  qed
qed

text \<open>
  C6. \<open>handleUnaryMinus\<close> is a total function from token sequences to token sequences
  of the same length. It replaces the token at a position by \<^verbatim>\<open>'NEG'\<close> exactly when that
  token is \<^verbatim>\<open>'-'\<close> and it is the first token or the token before it is \<^verbatim>\<open>'('\<close> or one
  of \<^verbatim>\<open>+ - * /\<close>; every other token stays. So \<^verbatim>\<open>calculate("-3+5")\<close> is \<^verbatim>\<open>"2"\<close> and
  \<^verbatim>\<open>calculate("2*-4")\<close> is \<^verbatim>\<open>"-8"\<close>.
\<close>

theorem handleUnaryMinus_rule:
  "length (handleUnaryMinus tokens) = length tokens
   \<and> (\<forall>i < length tokens.
        handleUnaryMinus tokens ! i =
          (if tokens ! i = Sym ''-''
              \<and> (i = 0 \<or> tokens ! (i - 1) \<in> set [Sym ''('', Sym ''+'', Sym ''-'', Sym ''*'', Sym ''/''])
           then Sym ''NEG'' else tokens ! i))
   \<and> calculate N ''-3+5'' = formatResult N (js_add N (js_neg N (parseFloat N ''3'')) (parseFloat N ''5''))
   \<and> calculate N ''2*-4'' = formatResult N (js_mul N (parseFloat N ''2'') (js_neg N (parseFloat N ''4'')))
   \<and> calculate exact ''-3+5'' = ''2''
   \<and> calculate exact ''2*-4'' = ''-8''"
proof (intro conjI allI impI)
  show "length (handleUnaryMinus tokens) = length tokens"
    by (simp add: handleUnaryMinus_def handleUnaryMinus_loop_length)
next
  fix i
  assume "i < length tokens"
  from handleUnaryMinus_loop_nth [OF this, of None]
  show "handleUnaryMinus tokens ! i =
          (if tokens ! i = Sym ''-''
              \<and> (i = 0 \<or> tokens ! (i - 1) \<in> set [Sym ''('', Sym ''+'', Sym ''-'', Sym ''*'', Sym ''/''])
           then Sym ''NEG'' else tokens ! i)"
    by (cases i) (simp_all add: handleUnaryMinus_def)
next
  show "calculate N ''-3+5'' = formatResult N (js_add N (js_neg N (parseFloat N ''3'')) (parseFloat N ''5''))"
    by (simp add: calculate_def evaluate_def tokenize_def isSpace_def isDigit_def toRPN_def
        handleUnaryMinus_def shuntingYard_def isOperator_def precedence_def evalRPN_def
        applyOperator_def)
next
  show "calculate N ''2*-4'' = formatResult N (js_mul N (parseFloat N ''2'') (js_neg N (parseFloat N ''4'')))"
    by (simp add: calculate_def evaluate_def tokenize_def isSpace_def isDigit_def toRPN_def
        handleUnaryMinus_def shuntingYard_def isOperator_def precedence_def evalRPN_def
        applyOperator_def)
next
  show "calculate exact ''-3+5'' = ''2''"
    by code_simp
next
  show "calculate exact ''2*-4'' = ''-8''"
    by code_simp
qed

theorem handleUnaryMinus_rule_witness:
  "handleUnaryMinus [Sym ''-'', Number (1 :: rat), Sym ''-'', Sym ''-'', Number 2] ! 0 = Sym ''NEG''
   \<and> handleUnaryMinus [Sym ''-'', Number (1 :: rat), Sym ''-'', Sym ''-'', Number 2] ! 2 = Sym ''-''
   \<and> handleUnaryMinus [Sym ''-'', Number (1 :: rat), Sym ''-'', Sym ''-'', Number 2] ! 3 = Sym ''NEG''"
proof -
  let ?ts = "[Sym ''-'', Number (1 :: rat), Sym ''-'', Sym ''-'', Number 2]"
  have rule: "\<forall>i < length ?ts.
        handleUnaryMinus ?ts ! i =
          (if ?ts ! i = Sym ''-''
              \<and> (i = 0 \<or> ?ts ! (i - 1) \<in> set [Sym ''('', Sym ''+'', Sym ''-'', Sym ''*'', Sym ''/''])
           then Sym ''NEG'' else ?ts ! i)"
    using handleUnaryMinus_rule [of ?ts exact] by (elim conjE)
  have "handleUnaryMinus ?ts ! 0 = Sym ''NEG''"
    using rule [rule_format, of 0] by simp
  moreover have "handleUnaryMinus ?ts ! 2 = Sym ''-''"
    using rule [rule_format, of 2] by simp
  moreover have "handleUnaryMinus ?ts ! 3 = Sym ''NEG''"
    using rule [rule_format, of 3] by simp
  ultimately show ?thesis
    by (intro conjI)
qed

section \<open>Mismatched parentheses\<close>

lemma popToLeftParen_found:
  "snd (snd (popToLeftParen out ops)) \<longleftrightarrow> Sym ''('' \<in> set ops"
  by (induction ops arbitrary: out) simp_all

lemma popRemaining_fails:
  "popRemaining out ops = Inl ''Mismatched parentheses'' \<longleftrightarrow>
     Sym ''('' \<in> set ops \<or> Sym '')'' \<in> set ops"
  by (induction ops arbitrary: out) auto

lemma shuntingYard_step_fails:
  "shuntingYard_step t (out, ops) = Inl ''Mismatched parentheses'' \<longleftrightarrow>
     t = Sym '')'' \<and> Sym ''('' \<notin> set ops"
proof (cases "t = Sym '')''")
  case True
  obtain out' ops' found where pop: "popToLeftParen out ops = (out', ops', found)"
    by (cases "popToLeftParen out ops") auto
  then have "found \<longleftrightarrow> Sym ''('' \<in> set ops"
    using popToLeftParen_found [of out ops] by simp
  with True pop show ?thesis
    by (simp add: isOperator_def)
next
  case False
  then show ?thesis
    by (cases t) (auto split: prod.splits)
qed

lemma shuntingYard_loop_fails:
  "shuntingYard_loop ts st = Inl ''Mismatched parentheses'' \<longleftrightarrow>
     (\<exists>pre post out ops.
        ts = pre @ Sym '')'' # post
        \<and> shuntingYard_loop pre st = Inr (out, ops)
        \<and> Sym ''('' \<notin> set ops)"
proof (induction ts arbitrary: st)
  case Nil
  show ?case by simp
next
  case (Cons t ts)
  obtain out0 ops0 where st: "st = (out0, ops0)"
    by (cases st)
  show ?case
  proof (cases "shuntingYard_step t st")
    case (Inl e)
    have "(\<exists>pre post out ops.
             t # ts = pre @ Sym '')'' # post
             \<and> shuntingYard_loop pre st = Inr (out, ops)
             \<and> Sym ''('' \<notin> set ops) \<longleftrightarrow>
          t = Sym '')'' \<and> Sym ''('' \<notin> set ops0"
      (is "?R \<longleftrightarrow> ?S")
    proof
      assume ?R
      then obtain pre post out ops where
        split: "t # ts = pre @ Sym '')'' # post" and
        run: "shuntingYard_loop pre st = Inr (out, ops)" and
        none: "Sym ''('' \<notin> set ops"
        by auto
      from run Inl have "pre = []"
        using split by (cases pre) auto
      with split run none st show ?S
        by auto
    next
      assume ?S
      then have "t # ts = [] @ Sym '')'' # ts
          \<and> shuntingYard_loop [] st = Inr (out0, ops0) \<and> Sym ''('' \<notin> set ops0"
        using st by simp
      then show ?R
        by (intro exI)
    qed
    moreover have "shuntingYard_loop (t # ts) st = Inl ''Mismatched parentheses'' \<longleftrightarrow>
        shuntingYard_step t (out0, ops0) = Inl ''Mismatched parentheses''"
      using Inl st by simp
    ultimately show ?thesis
      by (simp only: shuntingYard_step_fails)
  next
    case (Inr st1)
    have "(\<exists>pre post out ops.
             t # ts = pre @ Sym '')'' # post
             \<and> shuntingYard_loop pre st = Inr (out, ops)
             \<and> Sym ''('' \<notin> set ops) \<longleftrightarrow>
          (\<exists>pre post out ops.
             ts = pre @ Sym '')'' # post
             \<and> shuntingYard_loop pre st1 = Inr (out, ops)
             \<and> Sym ''('' \<notin> set ops)"
      (is "?R \<longleftrightarrow> ?S")
    proof
      assume ?R
      then obtain pre post out ops where
        split: "t # ts = pre @ Sym '')'' # post" and
        run: "shuntingYard_loop pre st = Inr (out, ops)" and
        none: "Sym ''('' \<notin> set ops"
        by auto
      have "pre \<noteq> []"
      proof
        assume "pre = []"
        with split run none st have "t = Sym '')'' \<and> Sym ''('' \<notin> set ops0"
          by auto
        then have "shuntingYard_step t (out0, ops0) = Inl ''Mismatched parentheses''"
          by (simp add: shuntingYard_step_fails del: shuntingYard_step.simps)
        with Inr st show False
          by simp
      qed
      then obtain pre' where pre: "pre = t # pre'"
        using split by (cases pre) auto
      with split run Inr have "ts = pre' @ Sym '')'' # post
          \<and> shuntingYard_loop pre' st1 = Inr (out, ops)"
        by simp
      with none show ?S
        by auto
    next
      assume ?S
      then obtain pre post out ops where
        split: "ts = pre @ Sym '')'' # post" and
        run: "shuntingYard_loop pre st1 = Inr (out, ops)" and
        none: "Sym ''('' \<notin> set ops"
        by auto
      from split run none Inr have "t # ts = (t # pre) @ Sym '')'' # post
          \<and> shuntingYard_loop (t # pre) st = Inr (out, ops)
          \<and> Sym ''('' \<notin> set ops"
        by simp
      then show ?R
        by (intro exI)
    qed
    moreover have "shuntingYard_loop (t # ts) st = Inl ''Mismatched parentheses'' \<longleftrightarrow>
        shuntingYard_loop ts st1 = Inl ''Mismatched parentheses''"
      using Inr by simp
    ultimately show ?thesis
      by (simp only: Cons.IH)
  qed
qed

lemma shuntingYard_fails:
  "shuntingYard tokens = Inl ''Mismatched parentheses'' \<longleftrightarrow>
     shuntingYard_loop tokens ([], []) = Inl ''Mismatched parentheses''
     \<or> (\<exists>out ops. shuntingYard_loop tokens ([], []) = Inr (out, ops)
           \<and> (Sym ''('' \<in> set ops \<or> Sym '')'' \<in> set ops))"
proof (cases "shuntingYard_loop tokens ([], [])")
  case (Inl e)
  then show ?thesis
    by (simp add: shuntingYard_def)
next
  case (Inr st)
  obtain out ops where "st = (out, ops)"
    by (cases st)
  with Inr show ?thesis
    by (simp add: shuntingYard_def popRemaining_fails)
qed

text \<open>
  C7. \<open>shuntingYard\<close> fails, with the mismatched-parentheses error, exactly when it
  processes a \<^verbatim>\<open>')'\<close> while no \<^verbatim>\<open>'('\<close> is on the operator stack, or when all tokens are
  consumed and a \<^verbatim>\<open>'('\<close> or \<^verbatim>\<open>')'\<close> is left on the operator stack; it has no other
  error. In particular \<^verbatim>\<open>calculate("(1+2")\<close> is \<^verbatim>\<open>"ERROR: Mismatched parentheses"\<close>.
\<close>

theorem mismatched_parentheses_exactly:
  "((\<exists>message. shuntingYard tokens = Inl message) \<longleftrightarrow>
      shuntingYard tokens = Inl ''Mismatched parentheses'')
   \<and> (shuntingYard tokens = Inl ''Mismatched parentheses'' \<longleftrightarrow>
        (\<exists>pre post out ops.
           tokens = pre @ Sym '')'' # post
           \<and> shuntingYard_loop pre ([], []) = Inr (out, ops)
           \<and> Sym ''('' \<notin> set ops)
        \<or> (\<exists>out ops. shuntingYard_loop tokens ([], []) = Inr (out, ops)
              \<and> (Sym ''('' \<in> set ops \<or> Sym '')'' \<in> set ops)))
   \<and> calculate N ''(1+2'' = ''ERROR: Mismatched parentheses''"
proof (intro conjI)
  show "(\<exists>message. shuntingYard tokens = Inl message) \<longleftrightarrow>
      shuntingYard tokens = Inl ''Mismatched parentheses''"
    using shuntingYard_error [of tokens] by auto
next
  show "shuntingYard tokens = Inl ''Mismatched parentheses'' \<longleftrightarrow>
        (\<exists>pre post out ops.
           tokens = pre @ Sym '')'' # post
           \<and> shuntingYard_loop pre ([], []) = Inr (out, ops)
           \<and> Sym ''('' \<notin> set ops)
        \<or> (\<exists>out ops. shuntingYard_loop tokens ([], []) = Inr (out, ops)
              \<and> (Sym ''('' \<in> set ops \<or> Sym '')'' \<in> set ops))"
    by (simp only: shuntingYard_fails shuntingYard_loop_fails)
next
  show "calculate N ''(1+2'' = ''ERROR: Mismatched parentheses''"
    by (simp add: calculate_def evaluate_def tokenize_def isSpace_def isDigit_def toRPN_def
        handleUnaryMinus_def shuntingYard_def isOperator_def precedence_def)
qed

theorem mismatched_parentheses_exactly_witness:
  "shuntingYard ([Number (1 :: rat)] @ Sym '')'' # [Number 2]) = Inl ''Mismatched parentheses''
   \<and> shuntingYard [Sym ''('', Number (1 :: rat)] = Inl ''Mismatched parentheses''"
proof -
  have "[Number (1 :: rat)] @ Sym '')'' # [Number 2] = [Number 1] @ Sym '')'' # [Number 2]
      \<and> shuntingYard_loop [Number (1 :: rat)] ([], []) = Inr ([Number 1], [])
      \<and> Sym ''('' \<notin> set ([] :: rat token list)"
    by simp
  then have "\<exists>pre post out ops.
      [Number (1 :: rat)] @ Sym '')'' # [Number 2] = pre @ Sym '')'' # post
      \<and> shuntingYard_loop pre ([], []) = Inr (out, ops) \<and> Sym ''('' \<notin> set ops"
    by (intro exI)
  then have first: "shuntingYard ([Number (1 :: rat)] @ Sym '')'' # [Number 2]) = Inl ''Mismatched parentheses''"
    using mismatched_parentheses_exactly [of "[Number (1 :: rat)] @ Sym '')'' # [Number 2]" exact]
    by simp
  have "shuntingYard_loop [Sym ''('', Number (1 :: rat)] ([], []) = Inr ([Number 1], [Sym ''(''])
      \<and> (Sym ''('' \<in> set [Sym ''('' :: rat token] \<or> Sym '')'' \<in> set [Sym ''('' :: rat token])"
    by (simp add: isOperator_def)
  then have "\<exists>out ops. shuntingYard_loop [Sym ''('', Number (1 :: rat)] ([], []) = Inr (out, ops)
      \<and> (Sym ''('' \<in> set ops \<or> Sym '')'' \<in> set ops)"
    by (intro exI)
  then have "shuntingYard [Sym ''('', Number (1 :: rat)] = Inl ''Mismatched parentheses''"
    using mismatched_parentheses_exactly [of "[Sym ''('', Number (1 :: rat)]" exact]
    by simp
  with first show ?thesis
    by (intro conjI)
qed

section \<open>The tokenizer: invalid characters and number runs\<close>

lemma scanNumber_keeps_invalid:
  "c \<in> set s \<Longrightarrow> \<not> isDigit c \<Longrightarrow> c \<noteq> CHR ''.'' \<Longrightarrow> c \<in> set (snd (scanNumber s hasDot))"
  by (induction s hasDot rule: scanNumber.induct) (auto split: prod.splits)

lemma allowed_character:
  "c \<notin> set ''0123456789.+-*/()'' \<longleftrightarrow> \<not> isDigit c \<and> c \<noteq> CHR ''.'' \<and> c \<notin> set ''+-*/()''"
  by (auto simp: isDigit_def)

lemma tokenize_loop_invalid:
  "c \<in> set s \<Longrightarrow> \<not> isDigit c \<Longrightarrow> c \<noteq> CHR ''.'' \<Longrightarrow> c \<notin> set ''+-*/()'' \<Longrightarrow>
   tokenize_loop N s tokens = Inl ''Invalid character''"
proof (induction N s tokens rule: tokenize_loop.induct)
  case (1 N tokens)
  then show ?case by simp
next
  case (2 N d ds tokens)
  show ?case
  proof (cases "isDigit d \<or> (d = CHR ''.'' \<and> ds \<noteq> [] \<and> isDigit (hd ds))")
    case True
    have "c \<in> set (snd (scanNumber (d # ds) False))"
      using "2.prems"(1,2,3) by (rule scanNumber_keeps_invalid)
    then have "tokenize_loop N (snd (scanNumber (d # ds) False))
        (tokens @ [Number (parseFloat N (fst (scanNumber (d # ds) False)))]) = Inl ''Invalid character''"
      using True "2.prems" by (intro "2.IH"(1))
    with True show ?thesis
      by (simp del: scanNumber.simps)
  next
    case False
    note not_number = this
    show ?thesis
    proof (cases "d \<in> set ''+-*/()''")
      case True
      with "2.prems" have "c \<in> set ds"
        by auto
      then have "tokenize_loop N ds (tokens @ [Sym [d]]) = Inl ''Invalid character''"
        using not_number True "2.prems" by (intro "2.IH"(2))
      with symbol_not_digit [OF True] True show ?thesis
        by simp
    next
      case False
      with not_number show ?thesis
        by auto
    qed
  qed
qed

text \<open>
  C8. When the input without its whitespace is empty, \<open>tokenize\<close> fails with the
  malformed-expression error; when it contains a character that is none of the digits,
  \<^verbatim>\<open>'.'\<close>, \<^verbatim>\<open>+ - * /\<close>, \<^verbatim>\<open>'('\<close> and \<^verbatim>\<open>')'\<close>, it fails with the invalid-character error.
  In particular \<^verbatim>\<open>calculate("")\<close> is \<^verbatim>\<open>"ERROR: Malformed expression"\<close> and
  \<^verbatim>\<open>calculate("2+@")\<close> is \<^verbatim>\<open>"ERROR: Invalid character"\<close>.
\<close>

theorem tokenize_failures:
  "(filter (\<lambda>c. \<not> isSpace c) s = [] \<longrightarrow> tokenize N s = Inl ''Malformed expression'')
   \<and> (\<forall>c. c \<in> set (filter (\<lambda>c. \<not> isSpace c) s) \<and> c \<notin> set ''0123456789.+-*/()'' \<longrightarrow>
          tokenize N s = Inl ''Invalid character'')
   \<and> calculate N [] = ''ERROR: Malformed expression''
   \<and> calculate N ''2+@'' = ''ERROR: Invalid character''"
proof (intro conjI allI impI)
  assume "filter (\<lambda>c. \<not> isSpace c) s = []"
  then show "tokenize N s = Inl ''Malformed expression''"
    by (simp add: tokenize_def)
next
  fix c
  assume bad: "c \<in> set (filter (\<lambda>c. \<not> isSpace c) s) \<and> c \<notin> set ''0123456789.+-*/()''"
  then have "c \<notin> set ''0123456789.+-*/()''"
    by (rule conjunct2)
  then have "\<not> isDigit c \<and> c \<noteq> CHR ''.'' \<and> c \<notin> set ''+-*/()''"
    by (rule iffD1 [OF allowed_character])
  with bad have "tokenize_loop N (filter (\<lambda>c. \<not> isSpace c) s) [] = Inl ''Invalid character''"
    by (intro tokenize_loop_invalid [of c]) simp_all
  moreover from bad have "filter (\<lambda>c. \<not> isSpace c) s \<noteq> []"
    by (auto simp: filter_empty_conv)
  ultimately show "tokenize N s = Inl ''Invalid character''"
    by (simp add: tokenize_def)
next
  show "calculate N [] = ''ERROR: Malformed expression''"
    by (simp add: calculate_def evaluate_def tokenize_def)
next
  show "calculate N ''2+@'' = ''ERROR: Invalid character''"
    by (simp add: calculate_def evaluate_def tokenize_def isSpace_def isDigit_def)
qed

theorem tokenize_failures_witness:
  "tokenize exact '' 7 * x'' = Inl ''Invalid character''
   \<and> tokenize exact [CHR '' '', CHR 0x09, CHR 0x0A] = Inl ''Malformed expression''"
proof -
  have "CHR ''x'' \<in> set (filter (\<lambda>c. \<not> isSpace c) '' 7 * x'') \<and> CHR ''x'' \<notin> set ''0123456789.+-*/()''"
    by (simp add: isSpace_def)
  then have "tokenize exact '' 7 * x'' = Inl ''Invalid character''"
    using tokenize_failures [of "'' 7 * x''" exact] by blast
  moreover have "filter (\<lambda>c. \<not> isSpace c) [CHR '' '', CHR 0x09, CHR 0x0A] = []"
    by (simp add: isSpace_def)
  then have "tokenize exact [CHR '' '', CHR 0x09, CHR 0x0A] = Inl ''Malformed expression''"
    using tokenize_failures [of "[CHR '' '', CHR 0x09, CHR 0x0A]" exact] by simp
  ultimately show ?thesis
    by (intro conjI)
qed

lemma digit_not_dot: "isDigit c \<Longrightarrow> c \<noteq> CHR ''.''"
  by (auto simp: isDigit_def)

lemma scanNumber_split: "fst (scanNumber s hasDot) @ snd (scanNumber s hasDot) = s"
  by (induction s hasDot rule: scanNumber.induct) (auto split: prod.splits)

lemma scanNumber_run_characters:
  "filter (\<lambda>c. \<not> (isDigit c \<or> c = CHR ''.'')) (fst (scanNumber s hasDot)) = []"
  by (induction s hasDot rule: scanNumber.induct) (auto split: prod.splits)

lemma scanNumber_run_dots:
  "length (filter (\<lambda>c. c = CHR ''.'') (fst (scanNumber s hasDot))) \<le> (if hasDot then 0 else 1)"
  by (induction s hasDot rule: scanNumber.induct) (auto split: prod.splits dest: digit_not_dot)

lemma scanNumber_digits_then:
  "list_all isDigit ds \<Longrightarrow>
   scanNumber (ds @ rest) hasDot = (ds @ fst (scanNumber rest hasDot), snd (scanNumber rest hasDot))"
  by (induction ds) (auto split: prod.splits dest: digit_not_dot)

lemma scanNumber_second_dot:
  assumes "list_all isDigit ds1" and "list_all isDigit ds2"
  shows "scanNumber (ds1 @ CHR ''.'' # ds2 @ CHR ''.'' # rest) False =
         (ds1 @ CHR ''.'' # ds2, CHR ''.'' # rest)"
proof -
  have stop: "scanNumber (CHR ''.'' # rest) True = ([], CHR ''.'' # rest)"
    by (simp add: isDigit_def)
  have "scanNumber (ds2 @ CHR ''.'' # rest) True = (ds2, CHR ''.'' # rest)"
    using scanNumber_digits_then [OF assms(2), of "CHR ''.'' # rest" True] stop by simp
  then have "scanNumber (CHR ''.'' # ds2 @ CHR ''.'' # rest) False = (CHR ''.'' # ds2, CHR ''.'' # rest)"
    by simp
  then show ?thesis
    using scanNumber_digits_then [OF assms(1), of "CHR ''.'' # ds2 @ CHR ''.'' # rest" False]
    by simp
qed

text \<open>
  C9. The run that a numeric token consumes is a prefix of the remaining input made of
  digits and at most one \<^verbatim>\<open>'.'\<close>. A second \<^verbatim>\<open>'.'\<close> ends the run at that position without
  an error, and tokenizing goes on from there: \<^verbatim>\<open>"1.2.3"\<close> gives the number of \<^verbatim>\<open>"1.2"\<close>
  and then the number of \<^verbatim>\<open>".3"\<close>.
\<close>

theorem number_run_one_decimal_point:
  "fst (scanNumber s False) @ snd (scanNumber s False) = s
   \<and> filter (\<lambda>c. \<not> (isDigit c \<or> c = CHR ''.'')) (fst (scanNumber s False)) = []
   \<and> length (filter (\<lambda>c. c = CHR ''.'') (fst (scanNumber s False))) \<le> 1
   \<and> (list_all isDigit ds1 \<and> list_all isDigit ds2 \<longrightarrow>
        scanNumber (ds1 @ CHR ''.'' # ds2 @ CHR ''.'' # rest) False =
          (ds1 @ CHR ''.'' # ds2, CHR ''.'' # rest))
   \<and> scanNumber ''1.2.3'' False = (''1.2'', ''.3'')
   \<and> tokenize N ''1.2.3'' = Inr [Number (parseFloat N ''1.2''), Number (parseFloat N ''.3'')]
   \<and> tokenize exact ''1.2.3'' = Inr [Number (6 / 5), Number (3 / 10)]"
proof (intro conjI impI)
  show "fst (scanNumber s False) @ snd (scanNumber s False) = s"
    by (rule scanNumber_split)
next
  show "filter (\<lambda>c. \<not> (isDigit c \<or> c = CHR ''.'')) (fst (scanNumber s False)) = []"
    by (rule scanNumber_run_characters)
next
  show "length (filter (\<lambda>c. c = CHR ''.'') (fst (scanNumber s False))) \<le> 1"
    using scanNumber_run_dots [of s False] by simp
next
  assume "list_all isDigit ds1 \<and> list_all isDigit ds2"
  then show "scanNumber (ds1 @ CHR ''.'' # ds2 @ CHR ''.'' # rest) False =
          (ds1 @ CHR ''.'' # ds2, CHR ''.'' # rest)"
    by (simp add: scanNumber_second_dot)
next
  show "scanNumber ''1.2.3'' False = (''1.2'', ''.3'')"
    by (simp add: isDigit_def)
next
  show "tokenize N ''1.2.3'' = Inr [Number (parseFloat N ''1.2''), Number (parseFloat N ''.3'')]"
    by (simp add: tokenize_def isSpace_def isDigit_def)
next
  show "tokenize exact ''1.2.3'' = Inr [Number (6 / 5), Number (3 / 10)]"
    by code_simp
qed

theorem number_run_one_decimal_point_witness:
  "list_all isDigit ''10'' \<and> list_all isDigit ''25''
   \<and> scanNumber (''10'' @ CHR ''.'' # ''25'' @ CHR ''.'' # ''7+1'') False = (''10.25'', ''.7+1'')"
proof -
  have digits: "list_all isDigit ''10'' \<and> list_all isDigit ''25''"
    by (simp add: isDigit_def)
  then have "scanNumber (''10'' @ CHR ''.'' # ''25'' @ CHR ''.'' # ''7+1'') False =
      (''10'' @ CHR ''.'' # ''25'', CHR ''.'' # ''7+1'')"
    using number_run_one_decimal_point [of "[]" "''10''" "''25''" "''7+1''" exact]
    by (simp del: scanNumber.simps)
  with digits show ?thesis
    by simp
qed

section \<open>Negation followed by negation\<close>

text \<open>
  C4. The loop that runs for an incoming operator pops the top of the operator stack
  while its precedence is at least that of the incoming operator. A \<^verbatim>\<open>'NEG'\<close> on top of
  the stack has precedence 3, so every incoming operator pops it, a second \<^verbatim>\<open>'NEG'\<close>
  included, whether or not its operand has been output. For \<^verbatim>\<open>--3\<close> the first \<^verbatim>\<open>'NEG'\<close>
  reaches the output before the number, the postfix form is \<^verbatim>\<open>NEG 3 NEG\<close>, and the
  evaluation fails, where \<^verbatim>\<open>-(-3)\<close> evaluates to the negation of the negation of 3.
\<close>

theorem negation_popped_before_operand:
  "popOperators t out (Sym ''NEG'' # ops) = popOperators t (out @ [Sym ''NEG'']) ops
   \<and> shuntingYard_step (Sym ''NEG'') (out, [Sym ''NEG'']) = Inr (out @ [Sym ''NEG''], [Sym ''NEG''])
   \<and> handleUnaryMinus [Sym ''-'', Sym ''-'', Number x] = [Sym ''NEG'', Sym ''NEG'', Number x]
   \<and> shuntingYard [Sym ''NEG'', Sym ''NEG'', Number x] = Inr [Sym ''NEG'', Number x, Sym ''NEG'']
   \<and> evalRPN N [Sym ''NEG'', Number x, Sym ''NEG''] = Inl ''Malformed expression''
   \<and> calculate N ''--3'' = ''ERROR: Malformed expression''
   \<and> calculate N ''-(-3)'' = formatResult N (js_neg N (js_neg N (parseFloat N ''3'')))"
proof (intro conjI)
  have top: "precedence t \<le> precedence (Sym ''NEG'' :: 'a token)" for t :: "'a token"
    by (simp add: precedence_def)
  show "popOperators t out (Sym ''NEG'' # ops) = popOperators t (out @ [Sym ''NEG'']) ops"
    using top [of t] by (simp add: isOperator_def)
  show "shuntingYard_step (Sym ''NEG'') (out, [Sym ''NEG'']) = Inr (out @ [Sym ''NEG''], [Sym ''NEG''])"
    by (simp add: isOperator_def precedence_def)
next
  show "handleUnaryMinus [Sym ''-'', Sym ''-'', Number x] = [Sym ''NEG'', Sym ''NEG'', Number x]"
    by (simp add: handleUnaryMinus_def)
next
  show "shuntingYard [Sym ''NEG'', Sym ''NEG'', Number x] = Inr [Sym ''NEG'', Number x, Sym ''NEG'']"
    by (simp add: shuntingYard_def isOperator_def precedence_def)
next
  show "evalRPN N [Sym ''NEG'', Number x, Sym ''NEG''] = Inl ''Malformed expression''"
    by (simp add: evalRPN_def isOperator_def)
next
  show "calculate N ''--3'' = ''ERROR: Malformed expression''"
    by (simp add: calculate_def evaluate_def tokenize_def isSpace_def isDigit_def toRPN_def
        handleUnaryMinus_def shuntingYard_def isOperator_def precedence_def evalRPN_def)
next
  show "calculate N ''-(-3)'' = formatResult N (js_neg N (js_neg N (parseFloat N ''3'')))"
    by (simp add: calculate_def evaluate_def tokenize_def isSpace_def isDigit_def toRPN_def
        handleUnaryMinus_def shuntingYard_def isOperator_def precedence_def evalRPN_def
        applyOperator_def)
qed

section \<open>Formatting what was formatted\<close>








end
